theory Spec2Isabelle
  imports Main "HOL-Library.Word"
begin

unbundle bit_operations_syntax

section \<open>Machine types and parameters of kawpow-slow-hash.c\<close>

text \<open>
  \<^verbatim>\<open>uint8_t\<close>, \<^verbatim>\<open>uint32_t\<close> and \<^verbatim>\<open>uint64_t\<close> are words: \<open>+\<close> and \<open>*\<close> wrap
  around, as unsigned arithmetic does in C. \<^verbatim>\<open>size_t\<close> is 64 bits wide and \<^verbatim>\<open>int\<close>
  32 bits wide, as on the 64-bit targets the daemon is built for.
\<close>

type_synonym u8 = "8 word"
type_synonym u32 = "32 word"
type_synonym u64 = "64 word"

definition KAWPOW_PERIOD :: nat where "KAWPOW_PERIOD = 3"
definition KAWPOW_LANES :: nat where "KAWPOW_LANES = 16"
definition KAWPOW_REGS :: nat where "KAWPOW_REGS = 32"
definition KAWPOW_DAG_LOADS :: nat where "KAWPOW_DAG_LOADS = 4"
definition KAWPOW_CNT_DAG :: nat where "KAWPOW_CNT_DAG = 64"
definition KAWPOW_CNT_CACHE :: nat where "KAWPOW_CNT_CACHE = 11"
definition KAWPOW_CNT_MATH :: nat where "KAWPOW_CNT_MATH = 18"
definition KAWPOW_EPOCH_LENGTH :: u64 where "KAWPOW_EPOCH_LENGTH = 7500"

text \<open>\<^verbatim>\<open>HASH_SIZE\<close> comes from hash-ops.h: the size of a hash in bytes.\<close>

definition HASH_SIZE :: nat where "HASH_SIZE = 32"

definition FNV_PRIME :: u32 where "FNV_PRIME = 0x1000193"
definition FNV_OFFSET_BASIS :: u32 where "FNV_OFFSET_BASIS = 0x811c9dc5"

section \<open>Seed heights\<close>

definition kawpow_seedheight :: "u64 \<Rightarrow> u64" where
  "kawpow_seedheight height = (height div KAWPOW_EPOCH_LENGTH) * KAWPOW_EPOCH_LENGTH"

text \<open>The two out-parameters \<^verbatim>\<open>*seed_height\<close> and \<^verbatim>\<open>*next_height\<close> are returned as a pair.\<close>

definition kawpow_seedheights :: "u64 \<Rightarrow> u64 \<times> u64" where
  "kawpow_seedheights height =
     (let seed_height = kawpow_seedheight height
      in (seed_height, seed_height + KAWPOW_EPOCH_LENGTH))"

section \<open>Mix primitives\<close>

definition fnv1a :: "u32 \<Rightarrow> u32 \<Rightarrow> u32" where
  "fnv1a h d = (h XOR d) * FNV_PRIME"

record kiss99_t =
  z :: u32
  w :: u32
  jsr :: u32
  jcong :: u32

text \<open>\<^verbatim>\<open>kiss99\<close> updates the generator in place and returns a value: the model returns
  the value and the updated generator.\<close>

definition kiss99 :: "kiss99_t \<Rightarrow> u32 \<times> kiss99_t" where
  "kiss99 st =
     (let z1 = 36969 * (z st AND 65535) + drop_bit 16 (z st);
          w1 = 18000 * (w st AND 65535) + drop_bit 16 (w st);
          MWC = push_bit 16 z1 + w1;
          j1 = jsr st XOR push_bit 17 (jsr st);
          j2 = j1 XOR drop_bit 13 j1;
          j3 = j2 XOR push_bit 5 j2;
          c1 = 69069 * jcong st + 1234567
      in ((MWC XOR c1) + j3, \<lparr>z = z1, w = w1, jsr = j3, jcong = c1\<rparr>))"

text \<open>
  The rotate helpers shift by \<open>n\<close> and by \<open>32 - n\<close> (unsigned, so \<open>32 - n\<close> wraps
  for \<open>n > 32\<close>). C gives a meaning to a shift of a 32-bit value only for amounts
  below 32. \<open>rotl32_shifts\<close> and \<open>rotr32_shifts\<close> list the amounts of the two shifts
  a call performs, in the order of the source expression. The value functions
  use \<open>push_bit\<close> and \<open>drop_bit\<close>, which give 0 for an amount of 32 or more.
\<close>

definition rotl32 :: "u32 \<Rightarrow> u32 \<Rightarrow> u32" where
  "rotl32 x n = push_bit (unat n) x OR drop_bit (unat (32 - n)) x"

definition rotr32 :: "u32 \<Rightarrow> u32 \<Rightarrow> u32" where
  "rotr32 x n = drop_bit (unat n) x OR push_bit (unat (32 - n)) x"

definition rotl32_shifts :: "u32 \<Rightarrow> u32 list" where
  "rotl32_shifts n = [n, 32 - n]"

definition rotr32_shifts :: "u32 \<Rightarrow> u32 list" where
  "rotr32_shifts n = [n, 32 - n]"

text \<open>The number of zero bits above the highest set bit of a 32-bit value (32 for the
  value 0), and the number of set bits.\<close>

definition leading_zeros :: "u32 \<Rightarrow> nat" where
  "leading_zeros x = length (takeWhile (\<lambda>i. \<not> bit x i) (rev [0..<32]))"

definition population_count :: "u32 \<Rightarrow> nat" where
  "population_count x = length (filter (bit x) [0..<32])"

text \<open>\<^verbatim>\<open>__builtin_clz\<close> is the count of leading zero bits for a nonzero argument and has
  no defined result for 0; the source calls it on \<open>a | 1\<close> and \<open>b | 1\<close> only.
  \<^verbatim>\<open>__builtin_popcount\<close> is the count of set bits.\<close>

definition builtin_clz :: "u32 \<Rightarrow> nat" where
  "builtin_clz x = leading_zeros x"

definition builtin_popcount :: "u32 \<Rightarrow> nat" where
  "builtin_popcount x = population_count x"

definition kawpow_math :: "u32 \<Rightarrow> u32 \<Rightarrow> u32 \<Rightarrow> u32" where
  "kawpow_math a b r =
     (let s = r mod 11 in
      if s = 0 then a + b
      else if s = 1 then a * b
      else if s = 2 then ucast (drop_bit 32 ((ucast a :: u64) * ucast b))
      else if s = 3 then (if a < b then a else b)
      else if s = 4 then rotl32 a (b AND 31)
      else if s = 5 then rotr32 a (b AND 31)
      else if s = 6 then a AND b
      else if s = 7 then a OR b
      else if s = 8 then a XOR b
      else if s = 9 then of_nat (builtin_clz (a OR 1) + builtin_clz (b OR 1))
      else if s = 10 then of_nat (builtin_popcount a + builtin_popcount b)
      else a + b)"

definition kawpow_merge :: "u32 \<Rightarrow> u32 \<Rightarrow> u32 \<Rightarrow> u32" where
  "kawpow_merge a b r =
     (let s = r mod 4 in
      if s = 0 then (a * 33) + b
      else if s = 1 then (a XOR b) * 33
      else if s = 2 then rotl32 a ((drop_bit 16 r mod 31) + 1) XOR b
      else if s = 3 then rotr32 a ((drop_bit 16 r mod 31) + 1) XOR b
      else (a * 33) + b)"

text \<open>The amounts of the shifts one call of \<open>kawpow_math\<close> or \<open>kawpow_merge\<close> performs
  through the rotate helpers.\<close>

definition kawpow_math_shifts :: "u32 \<Rightarrow> u32 \<Rightarrow> u32 \<Rightarrow> u32 list" where
  "kawpow_math_shifts a b r =
     (let s = r mod 11 in
      if s = 4 then rotl32_shifts (b AND 31)
      else if s = 5 then rotr32_shifts (b AND 31)
      else [])"

definition kawpow_merge_shifts :: "u32 \<Rightarrow> u32 \<Rightarrow> u32 \<Rightarrow> u32 list" where
  "kawpow_merge_shifts a b r =
     (let s = r mod 4 in
      if s = 2 then rotl32_shifts ((drop_bit 16 r mod 31) + 1)
      else if s = 3 then rotr32_shifts ((drop_bit 16 r mod 31) + 1)
      else [])"

text \<open>Drawing \<open>n\<close> values from the generator, first value first.\<close>

fun kiss99_draw :: "nat \<Rightarrow> kiss99_t \<Rightarrow> u32 list \<times> kiss99_t" where
  "kiss99_draw 0 st = ([], st)"
| "kiss99_draw (Suc n) st =
     (let (v, st1) = kiss99 st; (vs, st2) = kiss99_draw n st1 in (v # vs, st2))"

definition kawpow_fill_mix :: "u64 \<Rightarrow> u32 \<Rightarrow> u32 list" where
  "kawpow_fill_mix seed lane_id =
     (let z0 = fnv1a FNV_OFFSET_BASIS (ucast seed);
          w0 = fnv1a z0 (ucast (drop_bit 32 seed));
          jsr0 = fnv1a w0 lane_id;
          jcong0 = fnv1a jsr0 lane_id
      in fst (kiss99_draw KAWPOW_REGS \<lparr>z = z0, w = w0, jsr = jsr0, jcong = jcong0\<rparr>))"

section \<open>The sponge permutation\<close>

text \<open>The inner loop updates the state in place, word 0 first: word \<open>i\<close> reads the
  old word \<open>i + 1\<close>, and word 24 reads the new word 0.\<close>

definition keccak_step :: "nat \<Rightarrow> u32 list \<Rightarrow> u32 list" where
  "keccak_step i st = st[i := rotl32 (st ! i) 1 XOR st ! ((i + 1) mod 25)]"

definition keccak_round :: "u32 list \<Rightarrow> u32 list" where
  "keccak_round st = fold keccak_step [0..<25] st"

definition keccak_f800_progpow :: "u32 list \<Rightarrow> u32 list" where
  "keccak_f800_progpow st = (keccak_round ^^ 22) st"

section \<open>The hash function\<close>

text \<open>
  \<^verbatim>\<open>kawpow_slow_hash(seedhash, data, length, result_hash)\<close> receives the header as the
  \<^verbatim>\<open>length\<close> bytes at \<^verbatim>\<open>data\<close>: the model takes them as a byte list, \<^verbatim>\<open>length\<close> being
  its length. \<^verbatim>\<open>input32[i]\<close> reads four bytes as a \<^verbatim>\<open>uint32_t\<close>, least significant
  byte first on the little-endian targets the daemon is built for.
\<close>

definition input32 :: "u8 list \<Rightarrow> nat \<Rightarrow> u32" where
  "input32 data i =
     ucast (data ! (4 * i)) OR push_bit 8 (ucast (data ! (4 * i + 1)))
       OR push_bit 16 (ucast (data ! (4 * i + 2))) OR push_bit 24 (ucast (data ! (4 * i + 3)))"

text \<open>\<^verbatim>\<open>int input_words = length / 4\<close>: the quotient is a \<^verbatim>\<open>size_t\<close>, and the
  conversion to \<^verbatim>\<open>int\<close> keeps its low 32 bits, read as two's complement.\<close>

definition input_words :: "u8 list \<Rightarrow> int" where
  "input_words data = sint (ucast ((word_of_nat (length data) :: u64) div 4) :: u32)"

text \<open>The two copy loops \<^verbatim>\<open>for (i = 0; i < input_words && i < lim; i++)
  keccak_state[i] = input32[i]\<close>, with \<open>lim = 18\<close> before the first permutation and
  \<open>lim = 8\<close> before the last; \<open>i\<close> is an \<^verbatim>\<open>int\<close>.\<close>

function absorb_words :: "int \<Rightarrow> u8 list \<Rightarrow> int \<Rightarrow> u32 list \<Rightarrow> u32 list" where
  "absorb_words lim data i st =
     (if i < input_words data \<and> i < lim
      then absorb_words lim data (i + 1) (st[nat i := input32 data (nat i)])
      else st)"
  by pat_completeness auto
termination
  by (relation "measure (\<lambda>(lim, data, i, st). nat (lim - i))") auto

text \<open>Lines 205 to 213: the zeroed state with the header words copied in.\<close>

definition absorbed_state :: "u8 list \<Rightarrow> u32 list" where
  "absorbed_state data = absorb_words 18 data 0 (replicate 25 0)"

text \<open>\<^verbatim>\<open>uint64_t prog_seed = 1\<close> and the seeding of \<^verbatim>\<open>prog_rnd\<close> from it (lines 227
  to 232); the seeding is written as a function of \<open>prog_seed\<close>.\<close>

definition prog_seed :: u64 where
  "prog_seed = 1"

definition prog_rnd_init :: "u64 \<Rightarrow> kiss99_t" where
  "prog_rnd_init ps =
     (let z0 = fnv1a FNV_OFFSET_BASIS (ucast ps);
          w0 = fnv1a z0 (ucast (drop_bit 32 ps));
          jsr0 = fnv1a w0 (ucast ps);
          jcong0 = fnv1a jsr0 (ucast (drop_bit 32 ps))
      in \<lparr>z = z0, w = w0, jsr = jsr0, jcong = jcong0\<rparr>)"

text \<open>\<^verbatim>\<open>mix[KAWPOW_LANES][KAWPOW_REGS]\<close> is a list of lanes, each a list of registers.
  The main loop carries \<open>mix\<close> and the generator \<open>prog_rnd\<close> as a pair; every
  \<^verbatim>\<open>for (l = 0; l < KAWPOW_LANES; l++)\<close> loop updates each lane on its own and is a
  \<open>map\<close> over the lane indices.\<close>

type_synonym mix_t = "u32 list list"

definition dag_data_of :: "nat \<Rightarrow> mix_t \<Rightarrow> u32 list list" where
  "dag_data_of loop mix =
     map (\<lambda>l. map (\<lambda>i. fnv1a (mix ! l ! 0) (of_nat (loop * KAWPOW_LANES + l + i)))
                  [0..<KAWPOW_DAG_LOADS])
         [0..<KAWPOW_LANES]"

definition math_op :: "mix_t \<times> kiss99_t \<Rightarrow> mix_t \<times> kiss99_t" where
  "math_op s =
     (let (mix, rnd) = s;
          (v1, rnd1) = kiss99 rnd; src1 = unat (v1 mod 32);
          (v2, rnd2) = kiss99 rnd1; src2 = unat (v2 mod 32);
          (v3, rnd3) = kiss99 rnd2; dst = unat (v3 mod 32);
          (sel1, rnd4) = kiss99 rnd3;
          (sel2, rnd5) = kiss99 rnd4
      in (map (\<lambda>l. (mix ! l)[dst := kawpow_merge (mix ! l ! dst)
                                      (kawpow_math (mix ! l ! src1) (mix ! l ! src2) sel1) sel2])
              [0..<KAWPOW_LANES],
          rnd5))"

definition cache_op :: "mix_t \<times> kiss99_t \<Rightarrow> mix_t \<times> kiss99_t" where
  "cache_op s =
     (let (mix, rnd) = s;
          (v1, rnd1) = kiss99 rnd; src = unat (v1 mod 32);
          (v2, rnd2) = kiss99 rnd1; dst = unat (v2 mod 32);
          (sel, rnd3) = kiss99 rnd2
      in (map (\<lambda>l. (mix ! l)[dst := kawpow_merge (mix ! l ! dst) (fnv1a (mix ! l ! src) sel) sel])
              [0..<KAWPOW_LANES],
          rnd3))"

definition op_step :: "nat \<Rightarrow> mix_t \<times> kiss99_t \<Rightarrow> mix_t \<times> kiss99_t" where
  "op_step i s =
     (let s1 = (if i < KAWPOW_CNT_MATH then math_op s else s)
      in if i < KAWPOW_CNT_CACHE then cache_op s1 else s1)"

definition dag_merge_step ::
  "u32 list list \<Rightarrow> nat \<Rightarrow> mix_t \<times> kiss99_t \<Rightarrow> mix_t \<times> kiss99_t" where
  "dag_merge_step dag_data i s =
     (let (mix, rnd) = s;
          (dst, rnd1) = (if i = 0 then (0, rnd)
                         else (let (v, r) = kiss99 rnd in (unat (v mod 32), r)));
          (sel, rnd2) = kiss99 rnd1
      in (map (\<lambda>l. (mix ! l)[dst := kawpow_merge (mix ! l ! dst) (dag_data ! l ! i) sel])
              [0..<KAWPOW_LANES],
          rnd2))"

definition dag_loop_step :: "nat \<Rightarrow> mix_t \<times> kiss99_t \<Rightarrow> mix_t \<times> kiss99_t" where
  "dag_loop_step loop s =
     (let dag_data = dag_data_of loop (fst s);
          max_ops = (if KAWPOW_CNT_CACHE > KAWPOW_CNT_MATH then KAWPOW_CNT_CACHE
                     else KAWPOW_CNT_MATH);
          s1 = fold op_step [0..<max_ops] s
      in fold (dag_merge_step dag_data) [0..<KAWPOW_DAG_LOADS] s1)"

definition digest_lane_of :: "u32 list \<Rightarrow> u32" where
  "digest_lane_of regs = fold (\<lambda>x h. fnv1a h x) (take KAWPOW_REGS regs) FNV_OFFSET_BASIS"

definition final_digest_of :: "u32 list \<Rightarrow> u32 list" where
  "final_digest_of digest_lane =
     fold (\<lambda>l fd. fd[l mod 8 := fnv1a (fd ! (l mod 8)) (digest_lane ! l)])
          [0..<KAWPOW_LANES] (replicate 8 FNV_OFFSET_BASIS)"

definition word_bytes :: "u32 \<Rightarrow> u8 list" where
  "word_bytes x = [ucast x, ucast (drop_bit 8 x), ucast (drop_bit 16 x), ucast (drop_bit 24 x)]"

text \<open>The digest the function writes to \<^verbatim>\<open>result_hash\<close>. The body never reads
  \<^verbatim>\<open>seedhash\<close>, so the digest has the header as its only argument.\<close>

definition kawpow_digest :: "u8 list \<Rightarrow> u8 list" where
  "kawpow_digest data =
     (let keccak_state = keccak_f800_progpow (absorbed_state data);
          seed = push_bit 32 (ucast (keccak_state ! 0) :: u64) OR ucast (keccak_state ! 1);
          mix = map (\<lambda>l. kawpow_fill_mix seed (of_nat l)) [0..<KAWPOW_LANES];
          prog_rnd = prog_rnd_init prog_seed;
          (mix1, prog_rnd1) = fold dag_loop_step [0..<KAWPOW_CNT_DAG] (mix, prog_rnd);
          digest_lane = map digest_lane_of mix1;
          final_digest = final_digest_of digest_lane;
          st0 = absorb_words 8 data 0 (replicate 25 0);
          st1 = st0[8 := ucast seed];
          st2 = st1[9 := ucast (drop_bit 32 seed)];
          st3 = fold (\<lambda>i st. st[10 + i := final_digest ! i]) [0..<8] st2;
          st4 = keccak_f800_progpow st3
      in take HASH_SIZE (concat (map word_bytes st4)))"

section \<open>Global state and the exported functions\<close>

text \<open>
  The file-scope variables of kawpow-slow-hash.c. \<^verbatim>\<open>main_dataset\<close> and \<^verbatim>\<open>main_cache\<close>
  are pointers, \<open>None\<close> for \<^verbatim>\<open>NULL\<close>; \<^verbatim>\<open>miner_thread\<close> is the thread-local of the
  calling thread; \<open>log_lines\<close> collects what \<^verbatim>\<open>minfo\<close> is given. The two read/write
  locks have no state of their own in this sequential model.
\<close>

record globals =
  main_dataset :: "u8 list option"
  main_cache :: "u8 list option"
  main_seedhash :: "u8 list"
  main_seedhash_set :: int
  miner_thread :: u32
  log_lines :: "string list"

definition globals_init :: globals where
  "globals_init =
     \<lparr>main_dataset = None, main_cache = None, main_seedhash = replicate HASH_SIZE 0,
      main_seedhash_set = 0, miner_thread = 0, log_lines = []\<rparr>"

definition is_main :: "globals \<Rightarrow> u8 list \<Rightarrow> bool" where
  "is_main g seedhash \<longleftrightarrow>
     main_seedhash_set g \<noteq> 0 \<and> take HASH_SIZE seedhash = take HASH_SIZE (main_seedhash g)"

definition hash2hex :: "u8 list \<Rightarrow> string" where
  "hash2hex hash =
     concat (map (\<lambda>b. [''0123456789abcdef'' ! unat (drop_bit 4 b),
                         ''0123456789abcdef'' ! unat (b AND 15)])
                 (take HASH_SIZE hash))"

text \<open>Each exported function takes the global state and returns its result with the
  state it leaves.\<close>

definition kawpow_slow_hash :: "u8 list \<Rightarrow> u8 list \<Rightarrow> globals \<Rightarrow> u8 list \<times> globals" where
  "kawpow_slow_hash seedhash data g = (kawpow_digest data, g)"

definition kawpow_set_main_seedhash :: "u8 list \<Rightarrow> nat \<Rightarrow> globals \<Rightarrow> globals" where
  "kawpow_set_main_seedhash seedhash max_dataset_init_threads g =
     g\<lparr>main_seedhash := take HASH_SIZE seedhash,
       main_seedhash_set := 1,
       log_lines := log_lines g @ [''KawPow new main seed hash is '' @ hash2hex seedhash]\<rparr>"

definition kawpow_set_miner_thread :: "u32 \<Rightarrow> nat \<Rightarrow> globals \<Rightarrow> globals" where
  "kawpow_set_miner_thread v max_dataset_init_threads g = g\<lparr>miner_thread := v\<rparr>"

definition kawpow_get_miner_thread :: "globals \<Rightarrow> u32" where
  "kawpow_get_miner_thread g = miner_thread g"

section \<open>The function body, statement by statement, on the machine state\<close>

text \<open>
  The body of \<^verbatim>\<open>kawpow_slow_hash\<close> once more, this time with everything it could read
  in scope. C gives the local arrays \<^verbatim>\<open>mix\<close>, \<^verbatim>\<open>digest_lane\<close>, \<^verbatim>\<open>keccak_state\<close>,
  \<^verbatim>\<open>dag_data\<close> (one per iteration of the outer loop) and \<^verbatim>\<open>final_digest\<close>, and the
  local generators \<^verbatim>\<open>prog_rnd\<close> and \<^verbatim>\<open>st\<close> (one per call of \<^verbatim>\<open>kawpow_fill_mix\<close>), no
  initial value: they start with what the stack holds, here \<open>stack_junk\<close>. The machine
  state has the file-scope and thread-local variables, the stack and the buffer
  \<^verbatim>\<open>result_hash\<close> points to. Every assignment of the source is a list or record
  update on the variable it assigns; the steps that neither read nor write
  uninitialised memory or a global are the functions of the sections above.
\<close>

text \<open>
  C leaves a shift of a 32-bit value by 32 or more undefined, and the rotate helpers
  perform one when \<open>n = 0\<close> (claim C10). What the target gives for such a shift is a
  parameter of this model: \<open>wide_shl t x k\<close> and \<open>wide_shr t x k\<close> are its results for
  \<open>x << k\<close> and \<open>x >> k\<close> with \<open>k \<ge> 32\<close>. \<open>target_zero\<close> gives 0, as \<open>push_bit\<close> and
  \<open>drop_bit\<close> do; \<open>target_mask5\<close> shifts by the low five bits of the amount.
\<close>

record target =
  wide_shl :: "u32 \<Rightarrow> u32 \<Rightarrow> u32"
  wide_shr :: "u32 \<Rightarrow> u32 \<Rightarrow> u32"

definition target_zero :: target where
  "target_zero = \<lparr>wide_shl = (\<lambda>x k. 0), wide_shr = (\<lambda>x k. 0)\<rparr>"

definition target_mask5 :: target where
  "target_mask5 = \<lparr>wide_shl = (\<lambda>x k. push_bit (unat (k AND 31)) x),
                    wide_shr = (\<lambda>x k. drop_bit (unat (k AND 31)) x)\<rparr>"

definition shl_on :: "target \<Rightarrow> u32 \<Rightarrow> u32 \<Rightarrow> u32" where
  "shl_on t x n = (if n < 32 then push_bit (unat n) x else wide_shl t x n)"

definition shr_on :: "target \<Rightarrow> u32 \<Rightarrow> u32 \<Rightarrow> u32" where
  "shr_on t x n = (if n < 32 then drop_bit (unat n) x else wide_shr t x n)"

definition rotl32_on :: "target \<Rightarrow> u32 \<Rightarrow> u32 \<Rightarrow> u32" where
  "rotl32_on t x n = shl_on t x n OR shr_on t x (32 - n)"

definition rotr32_on :: "target \<Rightarrow> u32 \<Rightarrow> u32 \<Rightarrow> u32" where
  "rotr32_on t x n = shr_on t x n OR shl_on t x (32 - n)"

text \<open>\<^verbatim>\<open>kawpow_math\<close> on a target: the two rotate cases go through the target's shifts,
  the other cases perform no shift by a variable amount. (\<^verbatim>\<open>kawpow_merge\<close> and the sponge
  permutation rotate by amounts from 1 to 31 only, where every target agrees.)\<close>

definition kawpow_math_on :: "target \<Rightarrow> u32 \<Rightarrow> u32 \<Rightarrow> u32 \<Rightarrow> u32" where
  "kawpow_math_on t a b r =
     (let s = r mod 11 in
      if s = 4 then rotl32_on t a (b AND 31)
      else if s = 5 then rotr32_on t a (b AND 31)
      else kawpow_math a b r)"

definition math_op_on :: "target \<Rightarrow> mix_t \<times> kiss99_t \<Rightarrow> mix_t \<times> kiss99_t" where
  "math_op_on t s =
     (let (mix, rnd) = s;
          (v1, rnd1) = kiss99 rnd; src1 = unat (v1 mod 32);
          (v2, rnd2) = kiss99 rnd1; src2 = unat (v2 mod 32);
          (v3, rnd3) = kiss99 rnd2; dst = unat (v3 mod 32);
          (sel1, rnd4) = kiss99 rnd3;
          (sel2, rnd5) = kiss99 rnd4
      in (map (\<lambda>l. (mix ! l)[dst := kawpow_merge (mix ! l ! dst)
                                      (kawpow_math_on t (mix ! l ! src1) (mix ! l ! src2) sel1)
                                      sel2])
              [0..<KAWPOW_LANES],
          rnd5))"

definition op_step_on :: "target \<Rightarrow> nat \<Rightarrow> mix_t \<times> kiss99_t \<Rightarrow> mix_t \<times> kiss99_t" where
  "op_step_on t i s =
     (let s1 = (if i < KAWPOW_CNT_MATH then math_op_on t s else s)
      in if i < KAWPOW_CNT_CACHE then cache_op s1 else s1)"

record stack_junk =
  junk_mix :: "nat \<Rightarrow> nat \<Rightarrow> u32"
  junk_digest_lane :: "nat \<Rightarrow> u32"
  junk_keccak_state :: "nat \<Rightarrow> u32"
  junk_dag_data :: "nat \<Rightarrow> nat \<Rightarrow> nat \<Rightarrow> u32"
  junk_final_digest :: "nat \<Rightarrow> u32"
  junk_prog_rnd :: kiss99_t
  junk_st :: "nat \<Rightarrow> kiss99_t"

record machine =
  m_globals :: globals
  m_stack :: stack_junk
  m_result_hash :: "u8 list"

definition declare_array :: "nat \<Rightarrow> (nat \<Rightarrow> 'a) \<Rightarrow> 'a list" where
  "declare_array n junk = map junk [0..<n]"

text \<open>\<^verbatim>\<open>memset(keccak_state, 0, sizeof(keccak_state))\<close>.\<close>

definition memset_zero :: "u32 list \<Rightarrow> u32 list" where
  "memset_zero xs = map (\<lambda>x. 0) xs"

text \<open>\<^verbatim>\<open>kawpow_fill_mix\<close> as the source has it: the four fields of the local \<^verbatim>\<open>st\<close> are
  assigned one after the other, then \<^verbatim>\<open>mix[i] = kiss99(&st)\<close> for each register.\<close>

fun fill_regs :: "nat list \<Rightarrow> kiss99_t \<Rightarrow> u32 list \<Rightarrow> u32 list" where
  "fill_regs [] st mix = mix"
| "fill_regs (i # js) st mix = (let (v, st1) = kiss99 st in fill_regs js st1 (mix[i := v]))"

definition kawpow_fill_mix_into :: "u64 \<Rightarrow> u32 \<Rightarrow> kiss99_t \<Rightarrow> u32 list \<Rightarrow> u32 list" where
  "kawpow_fill_mix_into seed lane_id st0 mix =
     (let st1 = st0\<lparr>z := fnv1a FNV_OFFSET_BASIS (ucast seed)\<rparr>;
          st2 = st1\<lparr>w := fnv1a (z st1) (ucast (drop_bit 32 seed))\<rparr>;
          st3 = st2\<lparr>jsr := fnv1a (w st2) lane_id\<rparr>;
          st4 = st3\<lparr>jcong := fnv1a (jsr st3) lane_id\<rparr>
      in fill_regs [0..<KAWPOW_REGS] st4 mix)"

definition seed_prog_rnd :: "u64 \<Rightarrow> kiss99_t \<Rightarrow> kiss99_t" where
  "seed_prog_rnd ps st0 =
     (let st1 = st0\<lparr>z := fnv1a FNV_OFFSET_BASIS (ucast ps)\<rparr>;
          st2 = st1\<lparr>w := fnv1a (z st1) (ucast (drop_bit 32 ps))\<rparr>;
          st3 = st2\<lparr>jsr := fnv1a (w st2) (ucast ps)\<rparr>
      in st3\<lparr>jcong := fnv1a (jsr st3) (ucast (drop_bit 32 ps))\<rparr>)"

text \<open>The two nested loops that assign \<^verbatim>\<open>dag_data[l][i]\<close>, and one iteration of the outer
  loop with its own \<^verbatim>\<open>dag_data\<close>.\<close>

definition write_dag_data :: "nat \<Rightarrow> mix_t \<Rightarrow> u32 list list \<Rightarrow> u32 list list" where
  "write_dag_data loop mix dag_data =
     fold (\<lambda>l dd. dd[l := fold (\<lambda>i row. row[i := fnv1a (mix ! l ! 0)
                                                  (of_nat (loop * KAWPOW_LANES + l + i))])
                              [0..<KAWPOW_DAG_LOADS] (dd ! l)])
          [0..<KAWPOW_LANES] dag_data"

definition dag_loop_exec ::
  "target \<Rightarrow> stack_junk \<Rightarrow> nat \<Rightarrow> mix_t \<times> kiss99_t \<Rightarrow> mix_t \<times> kiss99_t" where
  "dag_loop_exec t j loop s =
     (let dag_data0 = declare_array KAWPOW_LANES
                        (\<lambda>l. declare_array KAWPOW_DAG_LOADS (junk_dag_data j loop l));
          dag_data = write_dag_data loop (fst s) dag_data0;
          max_ops = (if KAWPOW_CNT_CACHE > KAWPOW_CNT_MATH then KAWPOW_CNT_CACHE
                     else KAWPOW_CNT_MATH);
          s1 = fold (op_step_on t) [0..<max_ops] s
      in fold (dag_merge_step dag_data) [0..<KAWPOW_DAG_LOADS] s1)"

text \<open>\<^verbatim>\<open>digest_lane[l] = FNV_OFFSET_BASIS\<close>, then \<^verbatim>\<open>digest_lane[l] = fnv1a(digest_lane[l],
  mix[l][i])\<close> for each register; and the two loops over \<^verbatim>\<open>final_digest\<close>.\<close>

definition reduce_lanes :: "mix_t \<Rightarrow> u32 list \<Rightarrow> u32 list" where
  "reduce_lanes mix digest_lane =
     fold (\<lambda>l dl. fold (\<lambda>i dl1. dl1[l := fnv1a (dl1 ! l) (mix ! l ! i)])
                       [0..<KAWPOW_REGS] (dl[l := FNV_OFFSET_BASIS]))
          [0..<KAWPOW_LANES] digest_lane"

definition reduce_final :: "u32 list \<Rightarrow> u32 list \<Rightarrow> u32 list" where
  "reduce_final digest_lane final_digest =
     (let fd1 = fold (\<lambda>i fd. fd[i := FNV_OFFSET_BASIS]) [0..<8] final_digest
      in fold (\<lambda>l fd. fd[l mod 8 := fnv1a (fd ! (l mod 8)) (digest_lane ! l)])
              [0..<KAWPOW_LANES] fd1)"

text \<open>\<^verbatim>\<open>memcpy(result_hash, keccak_state, HASH_SIZE)\<close> overwrites the first \<open>HASH_SIZE\<close>
  bytes of the buffer.\<close>

definition kawpow_slow_hash_exec ::
  "target \<Rightarrow> u8 list \<Rightarrow> u8 list \<Rightarrow> machine \<Rightarrow> machine" where
  "kawpow_slow_hash_exec t seedhash data m =
     (let j = m_stack m;
          mix0 = declare_array KAWPOW_LANES (\<lambda>l. declare_array KAWPOW_REGS (junk_mix j l));
          digest_lane0 = declare_array KAWPOW_LANES (junk_digest_lane j);
          keccak_state0 = declare_array 25 (junk_keccak_state j);
          keccak_state1 = memset_zero keccak_state0;
          keccak_state2 = absorb_words 18 data 0 keccak_state1;
          keccak_state3 = keccak_f800_progpow keccak_state2;
          seed = push_bit 32 (ucast (keccak_state3 ! 0) :: u64) OR ucast (keccak_state3 ! 1);
          mix1 = fold (\<lambda>l mix. mix[l := kawpow_fill_mix_into seed (of_nat l) (junk_st j l) (mix ! l)])
                      [0..<KAWPOW_LANES] mix0;
          prog_rnd = seed_prog_rnd prog_seed (junk_prog_rnd j);
          (mix2, prog_rnd1) = fold (dag_loop_exec t j) [0..<KAWPOW_CNT_DAG] (mix1, prog_rnd);
          digest_lane1 = reduce_lanes mix2 digest_lane0;
          final_digest0 = declare_array 8 (junk_final_digest j);
          final_digest1 = reduce_final digest_lane1 final_digest0;
          keccak_state4 = memset_zero keccak_state3;
          keccak_state5 = absorb_words 8 data 0 keccak_state4;
          keccak_state6 = keccak_state5[8 := ucast seed];
          keccak_state7 = keccak_state6[9 := ucast (drop_bit 32 seed)];
          keccak_state8 = fold (\<lambda>i st. st[10 + i := final_digest1 ! i]) [0..<8] keccak_state7;
          keccak_state9 = keccak_f800_progpow keccak_state8
      in m\<lparr>m_result_hash := take HASH_SIZE (concat (map word_bytes keccak_state9))
                               @ drop HASH_SIZE (m_result_hash m)\<rparr>)"

text \<open>A lane array of the declared shape: \<open>KAWPOW_LANES\<close> rows of \<open>KAWPOW_REGS\<close> words.\<close>

definition mix_shape :: "mix_t \<Rightarrow> bool" where
  "mix_shape mix \<longleftrightarrow> length mix = KAWPOW_LANES \<and> list_all (\<lambda>row. length row = KAWPOW_REGS) mix"

text \<open>Two 25-word states that have the same first \<open>n\<close> words.\<close>

definition agree_upto :: "nat \<Rightarrow> u32 list \<Rightarrow> u32 list \<Rightarrow> bool" where
  "agree_upto n s t \<longleftrightarrow> length s = 25 \<and> length t = 25 \<and> (\<forall>i<n. s ! i = t ! i)"

section \<open>The operator families in the words of the specification\<close>

text \<open>
  \<open>mathOp\<close> and \<open>mergeOp\<close> follow section 4.2 of the specification, not the source:
  the operation is picked from the list by \<open>selector mod 11\<close> (or \<open>mod 4\<close>), and the
  wrap-around of the unsigned 32-bit arithmetic is written out on natural numbers.
\<close>

definition mathOp :: "u32 \<Rightarrow> u32 \<Rightarrow> u32 \<Rightarrow> u32" where
  "mathOp a b selector =
     [word_of_nat ((unat a + unat b) mod 2 ^ 32),
      word_of_nat ((unat a * unat b) mod 2 ^ 32),
      word_of_nat ((unat a * unat b) div 2 ^ 32),
      min a b,
      word_rotl (unat b mod 32) a,
      word_rotr (unat b mod 32) a,
      a AND b,
      a OR b,
      a XOR b,
      word_of_nat (leading_zeros a + leading_zeros b),
      word_of_nat (population_count a + population_count b)] ! (unat selector mod 11)"

definition mergeOp :: "u32 \<Rightarrow> u32 \<Rightarrow> u32 \<Rightarrow> u32" where
  "mergeOp a b selector =
     [word_of_nat ((unat a * 33 + unat b) mod 2 ^ 32),
      word_of_nat ((unat (a XOR b) * 33) mod 2 ^ 32),
      word_rotl ((unat selector div 2 ^ 16) mod 31 + 1) a XOR b,
      word_rotr ((unat selector div 2 ^ 16) mod 31 + 1) a XOR b] ! (unat selector mod 4)"

section \<open>Word arithmetic\<close>

declare absorb_words.simps [simp del]

lemma bit_u32_ge_32: "32 \<le> k \<Longrightarrow> \<not> bit (x :: u32) k"
  by (auto dest: bit_imp_le_length)

lemma unat_32_minus: "unat (n :: u32) \<le> 32 \<Longrightarrow> unat (32 - n) = 32 - unat n"
  by (simp add: unat_sub word_le_nat_alt)

lemma add_wrap: "a + b = (word_of_nat ((unat a + unat b) mod 2 ^ 32) :: u32)"
  by (simp add: word_unat_eq_iff unat_word_ariths unat_of_nat)

lemma mult_wrap: "a * b = (word_of_nat ((unat a * unat b) mod 2 ^ 32) :: u32)"
  by (simp add: word_unat_eq_iff unat_word_ariths unat_of_nat)

lemma mul_hi:
  "ucast (drop_bit 32 ((ucast a :: u64) * ucast b)) =
     (word_of_nat ((unat (a :: u32) * unat (b :: u32)) div 2 ^ 32) :: u32)"
proof -
  have a: "unat a < 2 ^ 32" and b: "unat b < 2 ^ 32"
    using unsigned_less [of a] unsigned_less [of b] by simp_all
  then have "unat a * unat b < 2 ^ 32 * 2 ^ 32"
    by (intro mult_strict_mono) simp_all
  then have lt: "unat a * unat b < 2 ^ 64" by simp
  have ua: "unat (ucast a :: u64) = unat a"
    using a by (simp add: unsigned_ucast_eq take_bit_nat_eq_self)
  have ub: "unat (ucast b :: u64) = unat b"
    using b by (simp add: unsigned_ucast_eq take_bit_nat_eq_self)
  have "unat ((ucast a :: u64) * ucast b) = unat a * unat b"
    using lt by (simp add: unat_word_ariths ua ub)
  then have "unat (drop_bit 32 ((ucast a :: u64) * ucast b)) = (unat a * unat b) div 2 ^ 32"
    by (simp add: unat_drop_bit_eq drop_bit_eq_div unat_div)
  then show ?thesis
    by (simp add: word_unat_eq_iff unsigned_ucast_eq unat_of_nat take_bit_eq_mod)
qed

lemma min_eq: "(if a < b then a else b) = min a (b :: u32)"
  by (auto simp: min_def)

lemma unat_and_31: "unat (b AND 31 :: u32) = unat b mod 32"
proof -
  have "b AND 31 = take_bit 5 b"
    by (simp add: take_bit_eq_mask mask_eq_exp_minus_1)
  then show ?thesis by (simp add: take_bit_eq_mod unat_mod)
qed

lemma merge_amount:
  "unat ((drop_bit 16 r mod 31) + 1 :: u32) = unat (drop_bit 16 r) mod 31 + 1"
proof -
  have "unat (drop_bit 16 r mod 31 :: u32) = unat (drop_bit 16 r) mod 31"
    by (simp add: unat_mod)
  moreover have "unat (drop_bit 16 r) mod 31 + 1 < 2 ^ 32"
    by (rule less_trans [of _ 32]) simp_all
  ultimately show ?thesis
    by (simp add: unat_word_ariths)
qed

subsection \<open>The rotate helpers are rotations for amounts from 1 to 31\<close>

lemma rotl32_eq_word_rotl:
  assumes "0 < unat n" "unat n < 32"
  shows "rotl32 x n = word_rotl (unat n) x"
proof (rule bit_word_eqI)
  fix i assume "i < LENGTH(32)"
  then have i: "i < 32" by simp
  have n32: "unat (32 - n) = 32 - unat n"
    using assms by (simp add: unat_32_minus)
  show "bit (rotl32 x n) i = bit (word_rotl (unat n) x) i"
  proof (cases "unat n \<le> i")
    case True
    then have m: "(i + (32 - unat n)) mod 32 = i - unat n"
      using i assms by (simp add: mod_if)
    have "\<not> bit x (32 + i - unat n)"
      using True assms by (intro bit_u32_ge_32) simp
    then show ?thesis
      using True i assms m by (simp add: rotl32_def n32 bit_simps)
  next
    case False
    then have m: "(i + (32 - unat n)) mod 32 = i + (32 - unat n)"
      using i assms by simp
    have e: "32 + i - unat n = i + (32 - unat n)"
      using assms by simp
    show ?thesis
      using False i assms m by (simp add: rotl32_def n32 bit_simps e)
  qed
qed

lemma rotr32_eq_word_rotr:
  assumes "0 < unat n" "unat n < 32"
  shows "rotr32 x n = word_rotr (unat n) x"
proof (rule bit_word_eqI)
  fix i assume "i < LENGTH(32)"
  then have i: "i < 32" by simp
  have n32: "unat (32 - n) = 32 - unat n"
    using assms by (simp add: unat_32_minus)
  show "bit (rotr32 x n) i = bit (word_rotr (unat n) x) i"
  proof (cases "i + unat n < 32")
    case True
    then have m: "(i + unat n) mod 32 = i + unat n" by simp
    have "\<not> 32 - unat n \<le> i" using True assms by simp
    then show ?thesis
      using True i assms m by (simp add: rotr32_def n32 bit_simps add.commute)
  next
    case False
    then have m: "(i + unat n) mod 32 = i - (32 - unat n)"
      using i assms by (simp add: mod_if)
    have "\<not> bit x (unat n + i)"
      using False by (intro bit_u32_ge_32) simp
    moreover have "32 - unat n \<le> i"
      using False by simp
    ultimately show ?thesis
      using False i assms m by (simp add: rotr32_def n32 bit_simps add.commute)
  qed
qed

subsection \<open>Leading zeros of \<open>a | 1\<close>\<close>

lemma rev_upt_32: "rev [0..<32] = rev [1..<32] @ [0]"
proof -
  have "[0..<32] = 0 # [1..<32]" by (simp add: upt_rec)
  then show ?thesis by simp
qed

lemma leading_zeros_1: "leading_zeros 1 = 31"
  unfolding leading_zeros_def by (simp add: upt_rec bit_1_iff)

lemma leading_zeros_0: "leading_zeros 0 = 32"
  unfolding leading_zeros_def by (simp add: upt_rec)

lemma leading_zeros_or_1:
  "leading_zeros (a OR 1) = (if a = 0 then 31 else leading_zeros a)"
proof (cases "a = 0")
  case True
  then show ?thesis by (simp add: leading_zeros_1)
next
  case False
  let ?xs = "rev [1..<32]"
  let ?P = "\<lambda>i. \<not> bit a i"
  let ?Q = "\<lambda>i. \<not> bit (a OR 1) i"
  have PQ: "\<And>i. i \<in> set ?xs \<Longrightarrow> ?Q i = ?P i"
    by (auto simp: bit_or_iff bit_1_iff)
  have tw: "takeWhile ?Q ?xs = takeWhile ?P ?xs"
    by (rule takeWhile_cong) (simp_all add: PQ del: upt.simps)
  have "takeWhile ?Q (?xs @ [0]) = takeWhile ?P (?xs @ [0])"
  proof (cases "\<forall>i\<in>set ?xs. ?P i")
    case True
    have "bit a 0"
    proof (rule ccontr)
      assume n0: "\<not> bit a 0"
      have "a = 0"
      proof (rule bit_word_eqI)
        fix i assume "i < LENGTH(32)"
        then have "i = 0 \<or> i \<in> set ?xs" by auto
        then show "bit a i = bit (0 :: u32) i" using n0 True by auto
      qed
      with False show False by simp
    qed
    moreover have "\<forall>i\<in>set ?xs. ?Q i" using True PQ by blast
    ultimately show ?thesis
      using True by (simp add: takeWhile_append2 bit_or_iff del: upt.simps set_upt set_rev)
  next
    case F: False
    then obtain i where i: "i \<in> set ?xs" "\<not> ?P i" by blast
    then have nQ: "\<not> ?Q i" using PQ by blast
    have "takeWhile ?Q (?xs @ [0]) = takeWhile ?Q ?xs"
      using i(1) nQ by (rule takeWhile_append1 [where P = ?Q])
    moreover have "takeWhile ?P (?xs @ [0]) = takeWhile ?P ?xs"
      using i(1) i(2) by (rule takeWhile_append1 [where P = ?P])
    ultimately show ?thesis using tw by simp
  qed
  then show ?thesis using False by (simp add: leading_zeros_def rev_upt_32 del: upt.simps)
qed

section \<open>The sponge permutation: lengths and data flow\<close>

lemma length_keccak_step [simp]: "length (keccak_step i st) = length st"
  by (simp add: keccak_step_def)

lemma length_fold_keccak_step [simp]: "length (fold keccak_step js st) = length st"
  by (induction js arbitrary: st) simp_all

lemma length_keccak_round [simp]: "length (keccak_round st) = length st"
  by (simp add: keccak_round_def)

lemma length_funpow_keccak_round [simp]: "length ((keccak_round ^^ n) st) = length st"
  by (induction n) simp_all

lemma length_keccak_f800_progpow [simp]: "length (keccak_f800_progpow st) = length st"
  by (simp add: keccak_f800_progpow_def)

text \<open>After the first \<open>n\<close> steps of a round, the words below \<open>n\<close> are updated from
  the old words \<open>i\<close> and \<open>i + 1\<close>, and the words from \<open>n\<close> on are still the old ones.\<close>

lemma fold_keccak_step_prefix:
  assumes "length st = 25" "n \<le> 24"
  shows "(\<forall>i<n. fold keccak_step [0..<n] st ! i = rotl32 (st ! i) 1 XOR st ! Suc i)
       \<and> (\<forall>i\<ge>n. fold keccak_step [0..<n] st ! i = st ! i)"
  using assms(2)
proof (induction n)
  case 0
  then show ?case by simp
next
  case (Suc n)
  let ?t = "fold keccak_step [0..<n] st"
  from Suc have IH1: "\<And>i. i < n \<Longrightarrow> ?t ! i = rotl32 (st ! i) 1 XOR st ! Suc i"
    and IH2: "\<And>i. n \<le> i \<Longrightarrow> ?t ! i = st ! i" by simp_all
  have len: "length ?t = 25" using assms(1) by simp
  have n: "n < 24" using Suc.prems by simp
  have step: "fold keccak_step [0..<Suc n] st = ?t[n := rotl32 (st ! n) 1 XOR st ! Suc n]"
    using n by (simp add: keccak_step_def IH2)
  show ?case
    unfolding step using n len by (auto simp: nth_list_update IH1 IH2 less_Suc_eq)
qed

lemma keccak_round_nth:
  assumes "length st = 25" "i < 24"
  shows "keccak_round st ! i = rotl32 (st ! i) 1 XOR st ! Suc i"
proof -
  let ?t = "fold keccak_step [0..<24] st"
  have "keccak_round st = keccak_step 24 ?t"
    by (simp add: keccak_round_def numeral_eq_Suc)
  then have "keccak_round st ! i = ?t ! i"
    using assms(2) by (simp add: keccak_step_def)
  then show ?thesis
    using fold_keccak_step_prefix [OF assms(1), of 24] assms(2) by simp
qed

text \<open>A round loses one word of agreement at the top, and keeps the rest.\<close>

lemma agree_upto_keccak_round:
  "agree_upto (Suc n) s t \<Longrightarrow> n \<le> 24 \<Longrightarrow> agree_upto n (keccak_round s) (keccak_round t)"
  by (simp add: agree_upto_def keccak_round_nth)

lemma agree_upto_funpow:
  "agree_upto (n + m) s t \<Longrightarrow> n + m \<le> 25 \<Longrightarrow>
   agree_upto n ((keccak_round ^^ m) s) ((keccak_round ^^ m) t)"
proof (induction m arbitrary: n)
  case 0
  then show ?case by simp
next
  case (Suc m)
  have "agree_upto (Suc n) ((keccak_round ^^ m) s) ((keccak_round ^^ m) t)"
    using Suc.IH [of "Suc n"] Suc.prems by simp
  then show ?case using Suc.prems by (simp add: agree_upto_keccak_round)
qed

section \<open>Properties of the seed heights\<close>

lemma unat_kawpow_seedheight: "unat (kawpow_seedheight h) = (unat h div 7500) * 7500"
proof -
  have "(unat h div 7500) * 7500 \<le> unat h" by simp
  also have "\<dots> < 2 ^ 64" using unsigned_less [of h] by simp
  finally have lt: "(unat h div 7500) * 7500 < 2 ^ 64" .
  show ?thesis
    unfolding kawpow_seedheight_def KAWPOW_EPOCH_LENGTH_def
    using lt by (simp add: unat_word_ariths unat_div)
qed

text \<open>
  Claim C9. \<open>kawpow_seedheight\<close> is idempotent and monotonic on every 64-bit height:
  applying it twice gives the same as applying it once, and a lower height never has
  a higher seed height. With the epoch length 7500, the seed height of 7499 is 0, the
  seed height of 7500 is 7500, and \<open>kawpow_seedheights 10000\<close> is the pair
  (7500, 15000).
\<close>

theorem kawpow_seedheight_idempotent_monotonic:
  "kawpow_seedheight (kawpow_seedheight h) = kawpow_seedheight h
   \<and> (h1 < h2 \<longrightarrow> kawpow_seedheight h1 \<le> kawpow_seedheight h2)
   \<and> kawpow_seedheight 7499 = 0
   \<and> kawpow_seedheight 7500 = 7500
   \<and> kawpow_seedheights 10000 = (7500, 15000)"
proof (intro conjI impI)
  show "kawpow_seedheight (kawpow_seedheight h) = kawpow_seedheight h"
    by (rule word_unat_eq_iff [THEN iffD2]) (simp add: unat_kawpow_seedheight)
  show "kawpow_seedheight h1 \<le> kawpow_seedheight h2" if "h1 < h2"
    using that
    by (simp add: word_le_nat_alt word_less_nat_alt unat_kawpow_seedheight div_le_mono)
  show "kawpow_seedheight 7499 = 0"
    by (simp add: kawpow_seedheight_def KAWPOW_EPOCH_LENGTH_def)
  show "kawpow_seedheight 7500 = 7500"
    by (simp add: kawpow_seedheight_def KAWPOW_EPOCH_LENGTH_def)
  show "kawpow_seedheights 10000 = (7500, 15000)"
    by (simp add: kawpow_seedheights_def kawpow_seedheight_def KAWPOW_EPOCH_LENGTH_def)
qed

theorem kawpow_seedheight_idempotent_monotonic_witness:
  "(7499 :: u64) < 14999
   \<and> kawpow_seedheight (kawpow_seedheight 14999) = kawpow_seedheight 14999
   \<and> kawpow_seedheight 7499 \<le> kawpow_seedheight 14999"
  using kawpow_seedheight_idempotent_monotonic [of 14999 7499 14999] by simp

section \<open>The operator families against the specification\<close>

lemma unat_mod_11_cases:
  obtains "unat (r :: u32) mod 11 = 0" | "unat r mod 11 = 1" | "unat r mod 11 = 2"
    | "unat r mod 11 = 3" | "unat r mod 11 = 4" | "unat r mod 11 = 5" | "unat r mod 11 = 6"
    | "unat r mod 11 = 7" | "unat r mod 11 = 8" | "unat r mod 11 = 9" | "unat r mod 11 = 10"
proof -
  have "k < 11 \<Longrightarrow> k = 0 \<or> k = 1 \<or> k = 2 \<or> k = 3 \<or> k = 4 \<or> k = 5 \<or> k = 6
      \<or> k = 7 \<or> k = 8 \<or> k = 9 \<or> k = 10" for k :: nat
    by arith
  from this [of "unat r mod 11"] show ?thesis using that by auto
qed

lemma unat_mod_4_cases:
  obtains "unat (r :: u32) mod 4 = 0" | "unat r mod 4 = 1" | "unat r mod 4 = 2"
    | "unat r mod 4 = 3"
proof -
  have "k < 4 \<Longrightarrow> k = 0 \<or> k = 1 \<or> k = 2 \<or> k = 3" for k :: nat
    by arith
  from this [of "unat r mod 4"] show ?thesis using that by auto
qed

lemma math_sel: "(r mod 11 = (k :: u32)) = (unat r mod 11 = unat k)"
  by (simp add: word_unat_eq_iff unat_mod)

lemma merge_sel: "(r mod 4 = (k :: u32)) = (unat r mod 4 = unat k)"
  by (simp add: word_unat_eq_iff unat_mod)

text \<open>
  Claim C7, as amended. For all 32-bit \<open>a\<close>, \<open>b\<close> and \<open>r\<close>, \<open>kawpow_math a b r\<close> is the
  operation that \<open>r mod 11\<close> selects, in the order add, multiply, high half of the
  64-bit product, minimum, rotate left, rotate right, and, or, xor, leading zeros,
  population count, with two differences from the claim as written. Selector 9 gives
  the sum of the leading-zero counts of \<open>a | 1\<close> and \<open>b | 1\<close>: an operand equal to 0
  counts 31, not 32. The rotate selectors 4 and 5 are covered for \<open>b mod 32 \<noteq> 0\<close>,
  where the amount is \<open>b mod 32\<close>; for \<open>b mod 32 = 0\<close> the helpers shift by 32 (claim
  C10), and the theorem says nothing about that case.
\<close>

theorem kawpow_math_selects:
  assumes "unat r mod 11 = 4 \<or> unat r mod 11 = 5 \<Longrightarrow> unat b mod 32 \<noteq> 0"
  shows "kawpow_math a b r =
           (if unat r mod 11 = 9
            then word_of_nat ((if a = 0 then 31 else leading_zeros a)
                              + (if b = 0 then 31 else leading_zeros b))
            else mathOp a b r)"
proof (cases r rule: unat_mod_11_cases)
  case 1
  then show ?thesis
    using add_wrap [of a b] by (simp add: kawpow_math_def mathOp_def math_sel)
next
  case 2
  then show ?thesis
    using mult_wrap [of a b] by (simp add: kawpow_math_def mathOp_def math_sel)
next
  case 3
  then show ?thesis
    using mul_hi [of a b] by (simp add: kawpow_math_def mathOp_def math_sel)
next
  case 4
  then show ?thesis
    by (simp add: kawpow_math_def mathOp_def math_sel min_eq)
next
  case 5
  then have "0 < unat (b AND 31)" "unat (b AND 31) < 32"
    using assms by (simp_all add: unat_and_31)
  then have "rotl32 a (b AND 31) = word_rotl (unat b mod 32) a"
    by (simp add: rotl32_eq_word_rotl unat_and_31)
  with 5 show ?thesis
    by (simp add: kawpow_math_def mathOp_def math_sel)
next
  case 6
  then have "0 < unat (b AND 31)" "unat (b AND 31) < 32"
    using assms by (simp_all add: unat_and_31)
  then have "rotr32 a (b AND 31) = word_rotr (unat b mod 32) a"
    by (simp add: rotr32_eq_word_rotr unat_and_31)
  with 6 show ?thesis
    by (simp add: kawpow_math_def mathOp_def math_sel)
next
  case 7
  then show ?thesis
    by (simp add: kawpow_math_def mathOp_def math_sel)
next
  case 8
  then show ?thesis
    by (simp add: kawpow_math_def mathOp_def math_sel)
next
  case 9
  then show ?thesis
    by (simp add: kawpow_math_def mathOp_def math_sel)
next
  case 10
  then show ?thesis
    by (simp add: kawpow_math_def math_sel builtin_clz_def leading_zeros_or_1)
next
  case 11
  then show ?thesis
    by (simp add: kawpow_math_def mathOp_def math_sel builtin_popcount_def)
qed

text \<open>The theorem at a rotate-left call with amount 3: \<open>a = 6\<close>, \<open>b = 3\<close>, \<open>r = 4\<close>.\<close>

theorem kawpow_math_selects_witness:
  "unat (3 :: u32) mod 32 \<noteq> 0 \<and> kawpow_math 6 3 4 = mathOp 6 3 4 \<and> kawpow_math 6 3 4 = 48"
  using kawpow_math_selects [of 4 3 6] by (simp add: kawpow_math_def rotl32_def)

text \<open>Claim C7 as written fails at \<open>a = 0\<close>, \<open>b = 0\<close>, \<open>r = 9\<close>: the sum of the two
  leading-zero counts is 64, and the code returns 62.\<close>

theorem kawpow_math_clz_counterexample:
  "kawpow_math 0 0 9 \<noteq> mathOp 0 0 9"
  by (simp add: kawpow_math_def builtin_clz_def leading_zeros_1 mathOp_def leading_zeros_0)

lemma kawpow_merge_shifts_in_range:
  "s \<in> set (kawpow_merge_shifts a b r) \<Longrightarrow> 0 < unat s \<and> unat s < 32"
proof -
  let ?n = "(drop_bit 16 r mod 31) + 1 :: u32"
  have n: "0 < unat ?n" "unat ?n < 32"
    by (simp_all add: merge_amount)
  have "unat (32 - ?n) = 32 - unat ?n"
    using n(2) by (intro unat_32_minus less_imp_le)
  then have m: "0 < unat (32 - ?n)" "unat (32 - ?n) < 32"
    using n by simp_all
  assume "s \<in> set (kawpow_merge_shifts a b r)"
  then have "s = ?n \<or> s = 32 - ?n"
    by (auto simp: kawpow_merge_shifts_def rotl32_shifts_def rotr32_shifts_def Let_def
        split: if_splits)
  then show ?thesis using n m by auto
qed

lemma kawpow_math_shifts_in_range:
  assumes "unat b mod 32 \<noteq> 0" "s \<in> set (kawpow_math_shifts a b r)"
  shows "unat s < 32"
proof -
  let ?n = "b AND 31"
  have n: "0 < unat ?n" "unat ?n < 32"
    using assms(1) by (simp_all add: unat_and_31)
  have "unat (32 - ?n) = 32 - unat ?n"
    using n(2) by (intro unat_32_minus less_imp_le)
  then have m: "unat (32 - ?n) < 32"
    using n by simp
  from assms(2) have "s = ?n \<or> s = 32 - ?n"
    by (auto simp: kawpow_math_shifts_def rotl32_shifts_def rotr32_shifts_def Let_def
        split: if_splits)
  then show ?thesis using n m by auto
qed

text \<open>
  Claim C8. For all 32-bit \<open>a\<close>, \<open>b\<close> and \<open>r\<close>, \<open>kawpow_merge a b r\<close> is the operation
  that \<open>r mod 4\<close> selects: 0 gives \<open>a * 33 + b\<close>, 1 gives \<open>(a xor b) * 33\<close>, 2 gives \<open>a\<close>
  rotated left by \<open>((r >> 16) mod 31) + 1\<close> xor \<open>b\<close>, 3 the same with a rotation to the
  right; the sums and products are taken modulo \<open>2 ^ 32\<close>, and no shift the call
  performs has an amount of 32 or more, so nothing traps or saturates.
\<close>

theorem kawpow_merge_selects:
  "kawpow_merge a b r = mergeOp a b r
   \<and> filter (\<lambda>s. \<not> s < 32) (kawpow_merge_shifts a b r) = []"
proof
  have "unat (drop_bit 16 r) = unat r div 2 ^ 16"
    by (subst unat_drop_bit_eq) (simp add: drop_bit_eq_div)
  then have amt: "unat ((drop_bit 16 r mod 31) + 1 :: u32) = (unat r div 2 ^ 16) mod 31 + 1"
    by (simp only: merge_amount)
  have rl: "rotl32 a ((drop_bit 16 r mod 31) + 1) = word_rotl ((unat r div 2 ^ 16) mod 31 + 1) a"
    using rotl32_eq_word_rotl [of "(drop_bit 16 r mod 31) + 1" a] unfolding amt by simp
  have rr: "rotr32 a ((drop_bit 16 r mod 31) + 1) = word_rotr ((unat r div 2 ^ 16) mod 31 + 1) a"
    using rotr32_eq_word_rotr [of "(drop_bit 16 r mod 31) + 1" a] unfolding amt by simp
  have m33: "a * 33 + b = word_of_nat ((unat a * 33 + unat b) mod 2 ^ 32)"
    by (simp add: word_unat_eq_iff unat_word_ariths unat_of_nat mod_simps)
  have x33: "(a XOR b) * 33 = word_of_nat ((unat (a XOR b) * 33) mod 2 ^ 32)"
    by (simp add: word_unat_eq_iff unat_word_ariths unat_of_nat mod_simps)
  show "kawpow_merge a b r = mergeOp a b r"
  proof (cases r rule: unat_mod_4_cases)
    case 1
    then show ?thesis
      using m33 by (simp add: kawpow_merge_def mergeOp_def merge_sel)
  next
    case 2
    then show ?thesis
      using x33 by (simp add: kawpow_merge_def mergeOp_def merge_sel)
  next
    case 3
    then show ?thesis
      using rl by (simp add: kawpow_merge_def mergeOp_def merge_sel)
  next
    case 4
    then show ?thesis
      using rr by (simp add: kawpow_merge_def mergeOp_def merge_sel)
  qed
  show "filter (\<lambda>s. \<not> s < 32) (kawpow_merge_shifts a b r) = []"
    using kawpow_merge_shifts_in_range [of _ a b r]
    by (auto simp: filter_empty_conv word_less_nat_alt)
qed

text \<open>
  Claim C10 says that every shift the rotate helpers perform for \<open>kawpow_math\<close> and
  \<open>kawpow_merge\<close> has an amount below 32, also when \<open>b mod 32 = 0\<close>. The code does not
  meet it: with \<open>b mod 32 = 0\<close> the rotate cases of \<open>kawpow_math\<close> (selectors 4 and 5)
  call the helper with \<open>n = 0\<close>, and its second shift has the amount \<open>32 - 0 = 32\<close>.
  (\<open>kawpow_merge\<close> keeps its amounts between 1 and 31, and so does \<open>kawpow_math\<close> for
  \<open>b mod 32 \<noteq> 0\<close>: the two lemmas above.)
\<close>

theorem kawpow_math_rotate_by_zero_shifts_32:
  "kawpow_math_shifts a 0 4 = [0, 32] \<and> kawpow_math_shifts a 32 5 = [0, 32]
   \<and> \<not> (32 :: u32) < 32"
  by (simp add: kawpow_math_shifts_def rotl32_shifts_def rotr32_shifts_def)

section \<open>Diffusion of the sponge permutation\<close>

text \<open>
  Claim C4 says that \<open>keccak_f800_progpow\<close> diffuses fully: every output bit depends
  on every input word. The code does not meet it. Each of the 22 rounds makes word
  \<open>i\<close> (for \<open>i < 24\<close>) out of the old words \<open>i\<close> and \<open>i + 1\<close> only, so output word 0
  depends on the input words 0 to 22 and on nothing else: changing input word 24
  to any value \<open>v\<close> leaves all 32 bits of output word 0 as they were.
\<close>

theorem keccak_word0_ignores_word24:
  "length st = 25 \<Longrightarrow> keccak_f800_progpow (st[24 := v]) ! 0 = keccak_f800_progpow st ! 0"
proof -
  assume len: "length st = 25"
  have "agree_upto (1 + 22) (st[24 := v]) st"
    using len by (simp add: agree_upto_def)
  then have "agree_upto 1 ((keccak_round ^^ 22) (st[24 := v])) ((keccak_round ^^ 22) st)"
    by (rule agree_upto_funpow) simp
  then show ?thesis
    by (simp add: agree_upto_def keccak_f800_progpow_def)
qed

text \<open>The theorem at the all-zero state and \<open>v = 1\<close>.\<close>

theorem keccak_word0_ignores_word24_witness:
  "length (replicate 25 (0 :: u32)) = 25 \<and>
   keccak_f800_progpow ((replicate 25 0)[24 := 1]) ! 0 = keccak_f800_progpow (replicate 25 0) ! 0"
  using keccak_word0_ignores_word24 [of "replicate 25 0" 1] by simp

section \<open>The absorb step\<close>

lemma length_absorb_words [simp]: "length (absorb_words lim data i st) = length st"
proof (induction lim data i st rule: absorb_words.induct)
  case (1 lim data i st)
  show ?case by (subst absorb_words.simps) (simp add: 1)
qed

lemma length_absorbed_state: "length (absorbed_state data) = 25"
  by (simp add: absorbed_state_def)

text \<open>Below \<open>2 ^ 33\<close> bytes the narrowing to \<^verbatim>\<open>int\<close> keeps the word count.\<close>

lemma input_words_small:
  assumes "length data < 2 ^ 33"
  shows "input_words data = int (length data div 4)"
proof -
  let ?n = "length data"
  have u64: "unat (word_of_nat ?n :: u64) = ?n"
    using assms by (simp add: unat_of_nat)
  have q: "unat ((word_of_nat ?n :: u64) div 4) = ?n div 4"
    by (simp add: unat_div u64)
  have lt: "?n div 4 < 2 ^ 31"
    using assms by simp
  have u32: "unat (ucast ((word_of_nat ?n :: u64) div 4) :: u32) = ?n div 4"
    using lt by (simp add: unsigned_ucast_eq q take_bit_nat_eq_self)
  have u: "uint (ucast ((word_of_nat ?n :: u64) div 4) :: u32) = int (?n div 4)"
    using u32 by (simp add: uint_nat)
  have "signed_take_bit 31 (int (?n div 4)) = int (?n div 4)"
    using lt by (intro signed_take_bit_int_eq_self) simp_all
  then show ?thesis
    unfolding input_words_def by (simp add: sint_uint u)
qed

lemma absorb_words_step:
  "i < input_words data \<Longrightarrow> i < lim \<Longrightarrow>
   absorb_words lim data i st = absorb_words lim data (i + 1) (st[nat i := input32 data (nat i)])"
  by (subst absorb_words.simps) simp

lemma absorb_words_stop:
  "\<not> (i < input_words data \<and> i < lim) \<Longrightarrow> absorb_words lim data i st = st"
  by (subst absorb_words.simps) auto

lemma absorb_words_nth:
  "0 \<le> i \<Longrightarrow> j < length st \<Longrightarrow>
   absorb_words lim data i st ! j =
     (if nat i \<le> j \<and> int j < input_words data \<and> int j < lim then input32 data j else st ! j)"
proof (induction lim data i st rule: absorb_words.induct)
  case (1 lim data i st)
  show ?case
  proof (cases "i < input_words data \<and> i < lim")
    case True
    have "absorb_words lim data i st ! j
          = absorb_words lim data (i + 1) (st[nat i := input32 data (nat i)]) ! j"
      using True by (simp add: absorb_words_step)
    also have "\<dots> = (if nat (i + 1) \<le> j \<and> int j < input_words data \<and> int j < lim
                      then input32 data j else st[nat i := input32 data (nat i)] ! j)"
      using "1.IH" [OF True] "1.prems" by simp
    also have "\<dots> = (if nat i \<le> j \<and> int j < input_words data \<and> int j < lim
                      then input32 data j else st ! j)"
      using True "1.prems" by (auto simp: nth_list_update)
    finally show ?thesis .
  next
    case False
    have "absorb_words lim data i st = st"
      using False by (rule absorb_words_stop)
    then show ?thesis using False "1.prems" by auto
  qed
qed

text \<open>For a header shorter than \<open>2 ^ 33\<close> bytes the absorbed state is what claim C6
  describes: the first 18 whole little-endian words of the header (all of them when
  there are fewer; the bytes of a trailing partial word are dropped), then zeros.\<close>

lemma absorbed_state_nth:
  assumes "length data < 2 ^ 33" "j < 25"
  shows "absorbed_state data ! j =
           (if j < 18 \<and> j < length data div 4 then input32 data j else 0)"
  using assms by (auto simp: absorbed_state_def absorb_words_nth input_words_small)

lemma input32_cong:
  "(\<And>k. k < 4 \<Longrightarrow> d1 ! (4 * j + k) = d2 ! (4 * j + k)) \<Longrightarrow> input32 d1 j = input32 d2 j"
proof -
  assume h: "\<And>k. k < 4 \<Longrightarrow> d1 ! (4 * j + k) = d2 ! (4 * j + k)"
  from h [of 0] h [of 1] h [of 2] h [of 3] show ?thesis
    by (simp add: input32_def)
qed

text \<open>Below \<open>2 ^ 33\<close> bytes, the bytes after the first 72 do not reach the state.\<close>

lemma absorbed_state_truncates:
  assumes "length d1 < 2 ^ 33" "length d2 < 2 ^ 33"
    and "72 \<le> length d1" "72 \<le> length d2" "take 72 d1 = take 72 d2"
  shows "absorbed_state d1 = absorbed_state d2"
proof (rule nth_equalityI)
  show "length (absorbed_state d1) = length (absorbed_state d2)"
    by (simp add: length_absorbed_state)
  fix j assume "j < length (absorbed_state d1)"
  then have j: "j < 25" by (simp add: length_absorbed_state)
  have w1: "18 \<le> length d1 div 4" and w2: "18 \<le> length d2 div 4"
    using assms(3,4) by simp_all
  have same: "input32 d1 j = input32 d2 j" if "j < 18"
  proof (rule input32_cong)
    fix k :: nat assume "k < 4"
    then have "4 * j + k < 72" using that by simp
    then have "d1 ! (4 * j + k) = take 72 d1 ! (4 * j + k)"
      "d2 ! (4 * j + k) = take 72 d2 ! (4 * j + k)"
      by simp_all
    then show "d1 ! (4 * j + k) = d2 ! (4 * j + k)" using assms(5) by simp
  qed
  show "absorbed_state d1 ! j = absorbed_state d2 ! j"
    using absorbed_state_nth [OF assms(1) j] absorbed_state_nth [OF assms(2) j] w1 w2 same
    by simp
qed

lemma input_words_huge: "input_words (replicate 8589934592 b) = - 2147483648"
  by (simp add: input_words_def)

text \<open>
  Claim C6 says that the absorb step takes exactly the first 18 little-endian words
  of any header, pads a shorter one with zeros and ignores what follows the 18th
  word. The code does not meet it for every length: \<^verbatim>\<open>int input_words = length / 4\<close>
  narrows the word count to 32 bits. For a header of \<open>2 ^ 33\<close> bytes, each \<open>0x01\<close>, the
  count \<open>2 ^ 31\<close> becomes \<open>- 2 ^ 31\<close>, the copy loop does not run, and the absorbed
  state is all zeros, although the first header word is \<open>0x01010101\<close>.
\<close>

theorem absorbed_state_huge_input:
  "absorbed_state (replicate (2 ^ 33) 1) = replicate 25 0
   \<and> input32 (replicate (2 ^ 33) 1) 0 = 0x01010101"
  by (simp add: absorbed_state_def absorb_words_stop input_words_huge input32_def)

section \<open>The hash function and the global state\<close>

lemma length_concat_word_bytes: "length (concat (map word_bytes st)) = 4 * length st"
  by (induction st) (simp_all add: word_bytes_def)

lemma length_fold_list_update [simp]:
  "length (fold (\<lambda>i st. st[f i := g i]) js st) = length st"
  by (induction js arbitrary: st) simp_all

lemma length_kawpow_digest: "length (kawpow_digest data) = 32"
  by (simp add: kawpow_digest_def Let_def split_beta length_concat_word_bytes HASH_SIZE_def)

subsection \<open>Every local is written before it is read\<close>

lemma length_declare_array [simp]: "length (declare_array n junk) = n"
  by (simp add: declare_array_def)

lemma fold_update_upt:
  "n \<le> length xs \<Longrightarrow>
   fold (\<lambda>l ys. ys[l := f l (ys ! l)]) [0..<n] xs = map (\<lambda>l. f l (xs ! l)) [0..<n] @ drop n xs"
proof (induction n)
  case 0
  then show ?case by simp
next
  case (Suc n)
  let ?ys = "map (\<lambda>l. f l (xs ! l)) [0..<n] @ drop n xs"
  have n: "n < length xs" using Suc.prems by simp
  have IH: "fold (\<lambda>l ys. ys[l := f l (ys ! l)]) [0..<n] xs = ?ys"
    using Suc by simp
  have nth: "?ys ! n = xs ! n"
    using n by (simp add: nth_append)
  have upd: "?ys[n := v] = map (\<lambda>l. f l (xs ! l)) [0..<n] @ v # drop (Suc n) xs" for v
    using n by (simp add: list_update_append Cons_nth_drop_Suc [symmetric])
  show ?case
    by (simp add: IH nth upd)
qed

lemma fold_update_all:
  "length xs = n \<Longrightarrow>
   fold (\<lambda>l ys. ys[l := f l (ys ! l)]) [0..<n] xs = map (\<lambda>l. f l (xs ! l)) [0..<n]"
  using fold_update_upt [of n xs f] by simp

lemma memset_zero_eq: "memset_zero xs = replicate (length xs) 0"
  by (simp add: memset_zero_def map_replicate_const)

lemma fill_regs_upt:
  "k + n \<le> length mix \<Longrightarrow>
   fill_regs [k..<k + n] st mix = take k mix @ fst (kiss99_draw n st) @ drop (k + n) mix"
proof (induction n arbitrary: k st mix)
  case 0
  then show ?case by simp
next
  case (Suc n)
  obtain v st1 where k: "kiss99 st = (v, st1)" by (cases "kiss99 st")
  have up: "[k..<k + Suc n] = k # [Suc k..<Suc k + n]"
    by (simp add: upt_conv_Cons)
  have kl: "k < length mix" using Suc.prems by simp
  have "fill_regs [k..<k + Suc n] st mix = fill_regs [Suc k..<Suc k + n] st1 (mix[k := v])"
    unfolding up by (simp add: k)
  also have "\<dots> = take (Suc k) (mix[k := v]) @ fst (kiss99_draw n st1)
                    @ drop (Suc k + n) (mix[k := v])"
    using Suc.prems by (intro Suc.IH) simp
  also have "take (Suc k) (mix[k := v]) = take k mix @ [v]"
    using kl by (simp add: take_Suc_conv_app_nth)
  also have "drop (Suc k + n) (mix[k := v]) = drop (k + Suc n) mix"
    by simp
  finally show ?case
    by (simp add: k split_beta)
qed

lemma length_kiss99_draw [simp]: "length (fst (kiss99_draw n st)) = n"
  by (induction n arbitrary: st) (simp_all add: split_beta)

lemma kiss99_all_fields:
  "st\<lparr>z := a, w := b, jsr := c, jcong := d\<rparr> = \<lparr>z = a, w = b, jsr = c, jcong = d\<rparr>"
  by (cases st) simp

lemma kawpow_fill_mix_into_eq:
  "length mix = KAWPOW_REGS \<Longrightarrow> kawpow_fill_mix_into seed lane_id st0 mix = kawpow_fill_mix seed lane_id"
  using fill_regs_upt [of 0 "KAWPOW_REGS" mix]
  by (simp add: kawpow_fill_mix_into_def kawpow_fill_mix_def Let_def kiss99_all_fields)

lemma seed_prog_rnd_eq: "seed_prog_rnd ps st0 = prog_rnd_init ps"
  by (simp add: seed_prog_rnd_def prog_rnd_init_def Let_def)

lemma write_dag_data_eq:
  "write_dag_data loop mix
     (declare_array KAWPOW_LANES (\<lambda>l. declare_array KAWPOW_DAG_LOADS (junk l)))
   = dag_data_of loop mix"
proof -
  let ?dd = "declare_array KAWPOW_LANES (\<lambda>l. declare_array KAWPOW_DAG_LOADS (junk l))"
  let ?v = "\<lambda>l i. fnv1a (mix ! l ! 0) (of_nat (loop * KAWPOW_LANES + l + i))"
  have row: "fold (\<lambda>i row. row[i := ?v l i]) [0..<KAWPOW_DAG_LOADS] (?dd ! l)
             = map (?v l) [0..<KAWPOW_DAG_LOADS]" if "l \<in> set [0..<KAWPOW_LANES]" for l
    using that fold_update_all [of "?dd ! l" KAWPOW_DAG_LOADS "\<lambda>i x. ?v l i"]
    by (simp add: declare_array_def)
  have "write_dag_data loop mix ?dd
        = map (\<lambda>l. fold (\<lambda>i row. row[i := ?v l i]) [0..<KAWPOW_DAG_LOADS] (?dd ! l))
              [0..<KAWPOW_LANES]"
    unfolding write_dag_data_def
    by (rule fold_update_all) simp
  also have "\<dots> = map (\<lambda>l. map (?v l) [0..<KAWPOW_DAG_LOADS]) [0..<KAWPOW_LANES]"
    by (rule map_cong [OF refl row])
  finally show ?thesis by (simp add: dag_data_of_def)
qed

lemma dag_loop_exec_junk_free:
  "dag_loop_exec t j loop s =
     fold (dag_merge_step (dag_data_of loop (fst s))) [0..<KAWPOW_DAG_LOADS]
       (fold (op_step_on t) [0..<KAWPOW_CNT_MATH] s)"
  by (simp add: dag_loop_exec_def write_dag_data_eq Let_def KAWPOW_CNT_MATH_def
      KAWPOW_CNT_CACHE_def)

lemma fold_dag_loop_exec_junk_free:
  "fold (dag_loop_exec t j) ls s = fold (dag_loop_exec t j') ls s"
  by (induction ls arbitrary: s) (simp_all add: dag_loop_exec_junk_free)

lemma length_kawpow_fill_mix [simp]: "length (kawpow_fill_mix seed lane_id) = KAWPOW_REGS"
  by (simp add: kawpow_fill_mix_def Let_def)

lemma fill_all_lanes:
  "fold (\<lambda>l mix. mix[l := kawpow_fill_mix_into seed (of_nat l) (st l) (mix ! l)])
        [0..<KAWPOW_LANES]
        (declare_array KAWPOW_LANES (\<lambda>l. declare_array KAWPOW_REGS (junk l)))
   = map (\<lambda>l. kawpow_fill_mix seed (of_nat l)) [0..<KAWPOW_LANES]"
proof -
  let ?m0 = "declare_array KAWPOW_LANES (\<lambda>l. declare_array KAWPOW_REGS (junk l))"
  have row: "kawpow_fill_mix_into seed (of_nat l) (st l) (?m0 ! l) = kawpow_fill_mix seed (of_nat l)"
    if "l \<in> set [0..<KAWPOW_LANES]" for l
    using that by (intro kawpow_fill_mix_into_eq) (simp add: declare_array_def)
  have "fold (\<lambda>l mix. mix[l := kawpow_fill_mix_into seed (of_nat l) (st l) (mix ! l)])
          [0..<KAWPOW_LANES] ?m0
        = map (\<lambda>l. kawpow_fill_mix_into seed (of_nat l) (st l) (?m0 ! l)) [0..<KAWPOW_LANES]"
    by (rule fold_update_all) simp
  also have "\<dots> = map (\<lambda>l. kawpow_fill_mix seed (of_nat l)) [0..<KAWPOW_LANES]"
    by (rule map_cong [OF refl row])
  finally show ?thesis .
qed

lemma mix_shape_lanes:
  "(\<And>l. l < KAWPOW_LANES \<Longrightarrow> length (f l) = KAWPOW_REGS) \<Longrightarrow>
   mix_shape (map f [0..<KAWPOW_LANES])"
  by (simp add: mix_shape_def list_all_iff)

lemma mix_shape_row: "mix_shape mix \<Longrightarrow> l < KAWPOW_LANES \<Longrightarrow> length (mix ! l) = KAWPOW_REGS"
  by (simp add: mix_shape_def list_all_length)

lemma mix_shape_math_op: "mix_shape (fst s) \<Longrightarrow> mix_shape (fst (math_op s))"
  by (cases s) (simp add: math_op_def split_beta Let_def mix_shape_lanes mix_shape_row)

lemma mix_shape_cache_op: "mix_shape (fst s) \<Longrightarrow> mix_shape (fst (cache_op s))"
  by (cases s) (simp add: cache_op_def split_beta Let_def mix_shape_lanes mix_shape_row)

lemma mix_shape_op_step: "mix_shape (fst s) \<Longrightarrow> mix_shape (fst (op_step i s))"
  by (simp add: op_step_def Let_def mix_shape_math_op mix_shape_cache_op)

lemma mix_shape_dag_merge_step:
  "mix_shape (fst s) \<Longrightarrow> mix_shape (fst (dag_merge_step dag_data i s))"
  by (cases s) (simp add: dag_merge_step_def split_beta Let_def mix_shape_lanes mix_shape_row)

lemma mix_shape_fold:
  "(\<And>i s. mix_shape (fst s) \<Longrightarrow> mix_shape (fst (f i s))) \<Longrightarrow>
   mix_shape (fst s) \<Longrightarrow> mix_shape (fst (fold f js s))"
  by (induction js arbitrary: s) simp_all

lemma mix_shape_dag_loop_step: "mix_shape (fst s) \<Longrightarrow> mix_shape (fst (dag_loop_step loop s))"
  unfolding dag_loop_step_def Let_def
  by (intro mix_shape_fold mix_shape_dag_merge_step mix_shape_op_step)

lemma fold_accumulate_at:
  "l < length dl \<Longrightarrow>
   fold (\<lambda>i dl1. dl1[l := g (dl1 ! l) i]) js dl = dl[l := fold (\<lambda>i h. g h i) js (dl ! l)]"
  by (induction js arbitrary: dl) simp_all

lemma digest_lane_of_nth:
  assumes "length row = KAWPOW_REGS"
  shows "fold (\<lambda>i h. fnv1a h (row ! i)) [0..<KAWPOW_REGS] FNV_OFFSET_BASIS = digest_lane_of row"
proof -
  have "fold (\<lambda>x h. fnv1a h x) (map ((!) row) [0..<length row]) FNV_OFFSET_BASIS
        = fold ((\<lambda>x h. fnv1a h x) \<circ> (!) row) [0..<length row] FNV_OFFSET_BASIS"
    by (simp only: fold_map)
  moreover have "((\<lambda>x h. fnv1a h x) \<circ> (!) row) = (\<lambda>i h. fnv1a h (row ! i))"
    by (rule ext) (simp only: comp_def)
  moreover have "map ((!) row) [0..<length row] = row"
    by (rule map_nth)
  moreover have "take KAWPOW_REGS row = row"
    using assms by simp
  ultimately show ?thesis
    using assms by (simp only: digest_lane_of_def)
qed

lemma reduce_lanes_step:
  "l < length dl \<Longrightarrow>
   fold (\<lambda>i dl1. dl1[l := fnv1a (dl1 ! l) (mix ! l ! i)]) [0..<KAWPOW_REGS]
        (dl[l := FNV_OFFSET_BASIS])
   = dl[l := fold (\<lambda>i h. fnv1a h (mix ! l ! i)) [0..<KAWPOW_REGS] FNV_OFFSET_BASIS]"
  using fold_accumulate_at [of l "dl[l := FNV_OFFSET_BASIS]" "\<lambda>h i. fnv1a h (mix ! l ! i)"]
  by simp

lemma reduce_lanes_fold:
  "n \<le> length dl \<Longrightarrow>
   fold (\<lambda>l dl. fold (\<lambda>i dl1. dl1[l := fnv1a (dl1 ! l) (mix ! l ! i)])
                    [0..<KAWPOW_REGS] (dl[l := FNV_OFFSET_BASIS])) [0..<n] dl
   = fold (\<lambda>l dl. dl[l := fold (\<lambda>i h. fnv1a h (mix ! l ! i)) [0..<KAWPOW_REGS] FNV_OFFSET_BASIS])
          [0..<n] dl"
proof (induction n)
  case 0
  then show ?case by simp
next
  case (Suc n)
  let ?g = "\<lambda>l dl. dl[l := fold (\<lambda>i h. fnv1a h (mix ! l ! i)) [0..<KAWPOW_REGS] FNV_OFFSET_BASIS]"
  have len: "n < length (fold ?g [0..<n] dl)"
    using Suc.prems by simp
  show ?case
    using Suc reduce_lanes_step [OF len, of mix] by simp
qed

lemma reduce_lanes_eq:
  assumes "mix_shape mix"
  shows "reduce_lanes mix (declare_array KAWPOW_LANES junk) = map digest_lane_of mix"
proof -
  let ?d = "\<lambda>l. fold (\<lambda>i h. fnv1a h (mix ! l ! i)) [0..<KAWPOW_REGS] FNV_OFFSET_BASIS"
  have len: "length mix = KAWPOW_LANES"
    using assms by (simp add: mix_shape_def)
  have "reduce_lanes mix (declare_array KAWPOW_LANES junk)
        = fold (\<lambda>l dl. dl[l := ?d l]) [0..<KAWPOW_LANES] (declare_array KAWPOW_LANES junk)"
    unfolding reduce_lanes_def by (rule reduce_lanes_fold) simp
  also have "\<dots> = map ?d [0..<KAWPOW_LANES]"
    using fold_update_all [of "declare_array KAWPOW_LANES junk" KAWPOW_LANES "\<lambda>l x. ?d l"]
    by simp
  also have "\<dots> = map (\<lambda>l. digest_lane_of (mix ! l)) [0..<KAWPOW_LANES]"
  proof (rule map_cong [OF refl])
    fix l assume "l \<in> set [0..<KAWPOW_LANES]"
    then have "length (mix ! l) = KAWPOW_REGS"
      using assms by (simp add: mix_shape_row)
    then show "?d l = digest_lane_of (mix ! l)"
      by (rule digest_lane_of_nth)
  qed
  also have "\<dots> = map digest_lane_of (map ((!) mix) [0..<length mix])"
    unfolding len by (simp only: map_map comp_def)
  also have "\<dots> = map digest_lane_of mix"
    by (simp only: map_nth)
  finally show ?thesis .
qed

lemma reduce_final_eq:
  "reduce_final digest_lane (declare_array 8 junk) = final_digest_of digest_lane"
proof -
  have "fold (\<lambda>i fd. fd[i := FNV_OFFSET_BASIS]) [0..<8] (declare_array 8 junk)
        = map (\<lambda>i. FNV_OFFSET_BASIS) [0..<8]"
    using fold_update_all [of "declare_array 8 junk" 8 "\<lambda>i x. FNV_OFFSET_BASIS"] by simp
  also have "\<dots> = replicate 8 FNV_OFFSET_BASIS"
    by (simp add: map_replicate_const)
  finally show ?thesis
    by (simp add: reduce_final_def final_digest_of_def Let_def)
qed


lemma mix_shape_math_op_on: "mix_shape (fst s) \<Longrightarrow> mix_shape (fst (math_op_on t s))"
  by (cases s) (simp add: math_op_on_def split_beta Let_def mix_shape_lanes mix_shape_row)

lemma mix_shape_op_step_on: "mix_shape (fst s) \<Longrightarrow> mix_shape (fst (op_step_on t i s))"
  by (simp add: op_step_on_def Let_def mix_shape_math_op_on mix_shape_cache_op)

lemma mix_shape_dag_loop_exec:
  "mix_shape (fst s) \<Longrightarrow> mix_shape (fst (dag_loop_exec t j loop s))"
  unfolding dag_loop_exec_junk_free
  by (intro mix_shape_fold mix_shape_dag_merge_step mix_shape_op_step_on)

lemma mix_shape_main_loop:
  "mix_shape (fst (fold (dag_loop_exec t j) ls
     (map (\<lambda>l. kawpow_fill_mix seed (of_nat l)) [0..<KAWPOW_LANES], rnd)))"
  by (intro mix_shape_fold mix_shape_dag_loop_exec) (simp_all add: mix_shape_lanes)

lemma reduce_lanes_main_loop:
  "reduce_lanes
     (fst (fold (dag_loop_exec t j) ls
             (map (\<lambda>l. kawpow_fill_mix seed (of_nat l)) [0..<KAWPOW_LANES], rnd)))
     (declare_array KAWPOW_LANES junk)
   = map digest_lane_of
       (fst (fold (dag_loop_exec t j) ls
               (map (\<lambda>l. kawpow_fill_mix seed (of_nat l)) [0..<KAWPOW_LANES], rnd)))"
  by (rule reduce_lanes_eq) (rule mix_shape_main_loop)

lemma push_bit_u32_wide: "\<not> n < (32 :: u32) \<Longrightarrow> push_bit (unat n) (x :: u32) = 0"
  by (simp add: word_less_nat_alt not_less)

lemma drop_bit_u32_wide: "\<not> n < (32 :: u32) \<Longrightarrow> drop_bit (unat n) (x :: u32) = 0"
  by (simp add: word_less_nat_alt not_less drop_bit_eq_zero_iff_not_bit_last)

lemma rotl32_on_target_zero: "rotl32_on target_zero x n = rotl32 x n"
  by (simp add: rotl32_on_def shl_on_def shr_on_def target_zero_def rotl32_def
      push_bit_u32_wide drop_bit_u32_wide)

lemma rotr32_on_target_zero: "rotr32_on target_zero x n = rotr32 x n"
  by (simp add: rotr32_on_def shl_on_def shr_on_def target_zero_def rotr32_def
      push_bit_u32_wide drop_bit_u32_wide)

lemma and_31_less: "(b AND 31 :: u32) < 32"
  by (simp add: word_less_nat_alt unat_and_31)

lemma sub_32_less: "0 < unat (n :: u32) \<Longrightarrow> unat n < 32 \<Longrightarrow> 32 - n < 32"
  by (simp add: word_less_nat_alt unat_32_minus)

lemma rotl32_on_target_mask5: "rotl32_on target_mask5 x (b AND 31) = rotl32 x (b AND 31)"
proof (cases "b AND 31 = 0")
  case True
  then show ?thesis
    by (simp add: rotl32_on_def shl_on_def shr_on_def target_mask5_def rotl32_def)
next
  case False
  then have "0 < unat (b AND 31)"
    by (simp add: unat_gt_0)
  moreover have "unat (b AND 31) < 32"
    by (simp add: unat_and_31)
  ultimately have "32 - (b AND 31) < 32"
    by (rule sub_32_less)
  then show ?thesis
    using and_31_less [of b]
    by (simp add: rotl32_on_def shl_on_def shr_on_def rotl32_def)
qed

lemma rotr32_on_target_mask5: "rotr32_on target_mask5 x (b AND 31) = rotr32 x (b AND 31)"
proof (cases "b AND 31 = 0")
  case True
  then show ?thesis
    by (simp add: rotr32_on_def shl_on_def shr_on_def target_mask5_def rotr32_def)
next
  case False
  then have "0 < unat (b AND 31)"
    by (simp add: unat_gt_0)
  moreover have "unat (b AND 31) < 32"
    by (simp add: unat_and_31)
  ultimately have "32 - (b AND 31) < 32"
    by (rule sub_32_less)
  then show ?thesis
    using and_31_less [of b]
    by (simp add: rotr32_on_def shl_on_def shr_on_def rotr32_def)
qed

lemma kawpow_math_on_de_facto:
  "t = target_zero \<or> t = target_mask5 \<Longrightarrow> kawpow_math_on t a b r = kawpow_math a b r"
  by (auto simp: kawpow_math_on_def kawpow_math_def Let_def rotl32_on_target_zero
      rotr32_on_target_zero rotl32_on_target_mask5 rotr32_on_target_mask5)

lemma math_op_on_de_facto:
  "t = target_zero \<or> t = target_mask5 \<Longrightarrow> math_op_on t s = math_op s"
  by (simp add: math_op_on_def math_op_def kawpow_math_on_de_facto)

lemma op_step_on_de_facto:
  "t = target_zero \<or> t = target_mask5 \<Longrightarrow> op_step_on t i s = op_step i s"
  by (simp add: op_step_on_def op_step_def math_op_on_de_facto)

lemma fold_op_step_on_de_facto:
  "t = target_zero \<or> t = target_mask5 \<Longrightarrow> fold (op_step_on t) js s = fold op_step js s"
  by (induction js arbitrary: s) (simp_all add: op_step_on_de_facto)

lemma dag_loop_exec_de_facto:
  "t = target_zero \<or> t = target_mask5 \<Longrightarrow> dag_loop_exec t j loop s = dag_loop_step loop s"
  by (simp add: dag_loop_exec_def dag_loop_step_def write_dag_data_eq Let_def
      fold_op_step_on_de_facto)

lemma fold_dag_loop_exec_de_facto:
  "t = target_zero \<or> t = target_mask5 \<Longrightarrow>
   fold (dag_loop_exec t j) ls s = fold dag_loop_step ls s"
  by (induction ls arbitrary: s) (simp_all add: dag_loop_exec_de_facto)

lemma mix_shape_main_loop_de_facto:
  "reduce_lanes
     (fst (fold dag_loop_step ls
             (map (\<lambda>l. kawpow_fill_mix seed (of_nat l)) [0..<KAWPOW_LANES], rnd)))
     (declare_array KAWPOW_LANES junk)
   = map digest_lane_of
       (fst (fold dag_loop_step ls
               (map (\<lambda>l. kawpow_fill_mix seed (of_nat l)) [0..<KAWPOW_LANES], rnd)))"
  using reduce_lanes_main_loop [of target_zero _ ls seed rnd junk]
  by (simp add: fold_dag_loop_exec_de_facto)

lemma kawpow_slow_hash_exec_any_machine:
  "take HASH_SIZE (m_result_hash (kawpow_slow_hash_exec t seedhash data m1))
   = take HASH_SIZE (m_result_hash (kawpow_slow_hash_exec t seedhash data m2))"
  unfolding kawpow_slow_hash_exec_def Let_def split_beta
  by (simp add: memset_zero_eq fill_all_lanes seed_prog_rnd_eq
      fold_dag_loop_exec_junk_free [of t "m_stack m1" _ _ "m_stack m2"]
      reduce_lanes_main_loop reduce_final_eq length_concat_word_bytes HASH_SIZE_def)

lemma kawpow_slow_hash_exec_de_facto:
  "t = target_zero \<or> t = target_mask5 \<Longrightarrow>
   take HASH_SIZE (m_result_hash (kawpow_slow_hash_exec t seedhash data m)) = kawpow_digest data"
  unfolding kawpow_slow_hash_exec_def kawpow_digest_def absorbed_state_def Let_def split_beta
  by (simp add: memset_zero_eq fill_all_lanes seed_prog_rnd_eq
      fold_dag_loop_exec_de_facto mix_shape_main_loop_de_facto
      reduce_final_eq length_concat_word_bytes HASH_SIZE_def)

lemma length_kawpow_slow_hash_exec:
  "length (take HASH_SIZE (m_result_hash (kawpow_slow_hash_exec t seedhash data m))) = 32"
  unfolding kawpow_slow_hash_exec_def Let_def split_beta
  by (simp add: length_concat_word_bytes HASH_SIZE_def memset_zero_eq)

lemma m_globals_kawpow_slow_hash_exec:
  "m_globals (kawpow_slow_hash_exec t seedhash data m) = m_globals m"
  unfolding kawpow_slow_hash_exec_def Let_def split_beta by simp

subsection \<open>The claims about the whole function\<close>

text \<open>
  Claim C1. \<open>kawpow_slow_hash\<close> is deterministic and reads no hidden state. For every
  seed hash and every header of any length (the function has no height argument),
  the 32 bytes a call writes to \<^verbatim>\<open>result_hash\<close> are the same from any two machine
  states \<open>m1\<close> and \<open>m2\<close>: the file-scope variables, the thread-local miner tag, the
  contents of the stack under the function's uninitialised locals and the old
  contents of the result buffer have no influence, so neither has a published cache
  or dataset. In particular a second call on the state the first one leaves, or a
  call after the miner tag was set, writes the same digest, and a call leaves the
  file-scope and thread-local variables as they were. This holds on every target
  \<open>t\<close>, that is for every value the target gives the shifts by 32 of claim C10 (the
  same function of the operands in both calls); on a target that gives 0 and on one
  that shifts by the low five bits of the amount the digest is that of the value
  model, \<open>kawpow_digest\<close>.
\<close>

theorem kawpow_slow_hash_no_hidden_state:
  "take HASH_SIZE (m_result_hash (kawpow_slow_hash_exec t seedhash data m1))
     = take HASH_SIZE (m_result_hash (kawpow_slow_hash_exec t seedhash data m2))
   \<and> take HASH_SIZE (m_result_hash
         (kawpow_slow_hash_exec t seedhash data (kawpow_slow_hash_exec t seedhash data m1)))
     = take HASH_SIZE (m_result_hash (kawpow_slow_hash_exec t seedhash data m1))
   \<and> take HASH_SIZE (m_result_hash (kawpow_slow_hash_exec t seedhash data
         (m1\<lparr>m_globals := kawpow_set_miner_thread v n (m_globals m1)\<rparr>)))
     = take HASH_SIZE (m_result_hash (kawpow_slow_hash_exec t seedhash data m1))
   \<and> length (take HASH_SIZE (m_result_hash (kawpow_slow_hash_exec t seedhash data m1))) = 32
   \<and> m_globals (kawpow_slow_hash_exec t seedhash data m1) = m_globals m1
   \<and> take HASH_SIZE (m_result_hash (kawpow_slow_hash_exec target_zero seedhash data m1))
     = fst (kawpow_slow_hash seedhash data (m_globals m1))
   \<and> take HASH_SIZE (m_result_hash (kawpow_slow_hash_exec target_mask5 seedhash data m1))
     = fst (kawpow_slow_hash seedhash data (m_globals m1))"
proof (intro conjI)
  show "take HASH_SIZE (m_result_hash (kawpow_slow_hash_exec t seedhash data m1))
        = take HASH_SIZE (m_result_hash (kawpow_slow_hash_exec t seedhash data m2))"
    by (rule kawpow_slow_hash_exec_any_machine)
  show "take HASH_SIZE (m_result_hash
          (kawpow_slow_hash_exec t seedhash data (kawpow_slow_hash_exec t seedhash data m1)))
        = take HASH_SIZE (m_result_hash (kawpow_slow_hash_exec t seedhash data m1))"
    by (rule kawpow_slow_hash_exec_any_machine)
  show "take HASH_SIZE (m_result_hash (kawpow_slow_hash_exec t seedhash data
          (m1\<lparr>m_globals := kawpow_set_miner_thread v n (m_globals m1)\<rparr>)))
        = take HASH_SIZE (m_result_hash (kawpow_slow_hash_exec t seedhash data m1))"
    by (rule kawpow_slow_hash_exec_any_machine)
  show "length (take HASH_SIZE (m_result_hash (kawpow_slow_hash_exec t seedhash data m1))) = 32"
    by (rule length_kawpow_slow_hash_exec)
  show "m_globals (kawpow_slow_hash_exec t seedhash data m1) = m_globals m1"
    by (rule m_globals_kawpow_slow_hash_exec)
  show "take HASH_SIZE (m_result_hash (kawpow_slow_hash_exec target_zero seedhash data m1))
        = fst (kawpow_slow_hash seedhash data (m_globals m1))"
    by (simp add: kawpow_slow_hash_exec_de_facto kawpow_slow_hash_def)
  show "take HASH_SIZE (m_result_hash (kawpow_slow_hash_exec target_mask5 seedhash data m1))
        = fst (kawpow_slow_hash seedhash data (m_globals m1))"
    by (simp add: kawpow_slow_hash_exec_de_facto kawpow_slow_hash_def)
qed

text \<open>
  Claim C2 says that the digest depends on the seed hash: for some pair of distinct
  seed hashes and some header the two digests differ. The code does not meet it: the
  body of \<open>kawpow_slow_hash\<close> never reads \<^verbatim>\<open>seedhash\<close>, and any two seed hashes give the
  same digest for the same header.
\<close>

theorem kawpow_slow_hash_ignores_seedhash:
  "kawpow_slow_hash seedhash_A data g = kawpow_slow_hash seedhash_B data g"
  by (simp add: kawpow_slow_hash_def)

text \<open>
  Claim C3 says that the generator which draws the mixing program is seeded from
  \<open>floor (height / PERIOD)\<close>. The code does not meet it: \<open>prog_seed\<close> is the constant
  1 in every call, and the function receives no height. At height 0 the period index
  is 0, and seeding from 0 gives another generator state than the one the code
  starts from.
\<close>

theorem prog_rnd_seeded_from_constant:
  "prog_seed = 1
   \<and> prog_rnd_init (word_of_nat (0 div KAWPOW_PERIOD)) \<noteq> prog_rnd_init prog_seed"
  by (simp add: prog_seed_def prog_rnd_init_def KAWPOW_PERIOD_def fnv1a_def
      FNV_OFFSET_BASIS_def FNV_PRIME_def Let_def)

text \<open>
  Claim C5 says that \<open>kawpow_set_main_seedhash\<close> does nothing when the seed hash is
  the published one, and otherwise rebuilds the cache and the dataset from the new
  seed hash and publishes them. The code does not meet it: the call stores the seed
  hash, sets the flag and logs one line, also when \<open>is_main\<close> holds for the seed hash
  beforehand; it never assigns \<^verbatim>\<open>main_cache\<close> or \<^verbatim>\<open>main_dataset\<close>. Called on the
  initial state it returns with the seed hash published and both pointers still
  \<^verbatim>\<open>NULL\<close>.
\<close>

theorem kawpow_set_main_seedhash_no_rebuild:
  "main_cache (kawpow_set_main_seedhash seedhash n g) = main_cache g
   \<and> main_dataset (kawpow_set_main_seedhash seedhash n g) = main_dataset g
   \<and> length (log_lines (kawpow_set_main_seedhash seedhash n g)) = Suc (length (log_lines g))
   \<and> is_main (kawpow_set_main_seedhash seedhash n globals_init) seedhash
   \<and> main_cache (kawpow_set_main_seedhash seedhash n globals_init) = None
   \<and> main_dataset (kawpow_set_main_seedhash seedhash n globals_init) = None"
  by (simp add: kawpow_set_main_seedhash_def globals_init_def is_main_def)

end
